theory Spec2Isabelle
  imports Main "HOL-Library.Word" "HOL-Library.Sublist"
begin

section \<open>JavaScript strings\<close>

text \<open>
  A JavaScript string is a sequence of 16-bit code units. The string methods the
  script calls (\<^verbatim>\<open>startsWith\<close>, \<^verbatim>\<open>split\<close>, \<^verbatim>\<open>join\<close>, \<^verbatim>\<open>trimEnd\<close>, \<^verbatim>\<open>replace\<close>
  with a global regular expression) work on code units, so the model does too.
  \<open>lit\<close> writes an ASCII literal of the source as code units.
\<close>

type_synonym jschar = "16 word"
type_synonym jsstring = "jschar list"

definition lit :: "string \<Rightarrow> jsstring" where
  "lit s = map (\<lambda>c. of_nat (of_char c)) s"

text \<open>\<^verbatim>\<open>s.startsWith(p)\<close>\<close>

fun startsWith :: "jsstring \<Rightarrow> jsstring \<Rightarrow> bool" where
  "startsWith s [] = True"
| "startsWith [] (p # ps) = False"
| "startsWith (c # cs) (p # ps) = (c = p \<and> startsWith cs ps)"

text \<open>
  \<^verbatim>\<open>s.split(sep)\<close> for a separator of one code unit (the script splits on
  \<^verbatim>\<open>"/"\<close>, \<^verbatim>\<open>"."\<close> and \<^verbatim>\<open>"\n"\<close>). The result always has at least one
  element: \<^verbatim>\<open>"".split("/")\<close> is \<^verbatim>\<open>[""]\<close>.
\<close>

fun js_split :: "jsstring \<Rightarrow> jschar \<Rightarrow> jsstring list" where
  "js_split [] sep = [[]]"
| "js_split (c # cs) sep =
     (if c = sep then [] # js_split cs sep
      else (case js_split cs sep of
              [] \<Rightarrow> [[c]]
            | part # parts \<Rightarrow> (c # part) # parts))"

text \<open>\<^verbatim>\<open>xs.join(sep)\<close>\<close>

fun join :: "jsstring list \<Rightarrow> jsstring \<Rightarrow> jsstring" where
  "join [] sep = []"
| "join [x] sep = x"
| "join (x # y # ys) sep = x @ sep @ join (y # ys) sep"

text \<open>
  \<^verbatim>\<open>s.trimEnd()\<close> removes the trailing code units that are ECMAScript white space
  or line terminators.
\<close>

definition isWhiteSpace :: "jschar \<Rightarrow> bool" where
  "isWhiteSpace c =
     (c = 0x9 \<or> c = 0xA \<or> c = 0xB \<or> c = 0xC \<or> c = 0xD \<or> c = 0x20 \<or> c = 0xA0
      \<or> c = 0x1680 \<or> (0x2000 \<le> c \<and> c \<le> 0x200A) \<or> c = 0x2028 \<or> c = 0x2029
      \<or> c = 0x202F \<or> c = 0x205F \<or> c = 0x3000 \<or> c = 0xFEFF)"

definition trimEnd :: "jsstring \<Rightarrow> jsstring" where
  "trimEnd s = rev (dropWhile isWhiteSpace (rev s))"

text \<open>String conversion of a non-negative integer, as string concatenation does it.\<close>

definition digit :: "nat \<Rightarrow> jschar" where
  "digit d = of_nat (48 + d)"

function decimal :: "nat \<Rightarrow> jsstring" where
  "decimal n = (if n < 10 then [digit n] else decimal (n div 10) @ [digit (n mod 10)])"
  by pat_completeness auto
termination
  by (relation "measure id") auto

declare decimal.simps [simp del]

text \<open>\<open>occurs p s\<close>: the string \<open>p\<close> is a substring of \<open>s\<close>.\<close>

fun occurs :: "jsstring \<Rightarrow> jsstring \<Rightarrow> bool" where
  "occurs p [] = (p = [])"
| "occurs p (c # cs) = (startsWith (c # cs) p \<or> occurs p cs)"

section \<open>Data model\<close>

text \<open>
  A record of the changed-files listing: only the three fields the script reads.
  \<open>patch\<close> is absent for files without a textual diff.
\<close>

record file_change =
  filename :: jsstring
  status :: jsstring
  patch :: "jsstring option"

text \<open>A label of the event payload: a plain name or an object with a \<^verbatim>\<open>name\<close> field.\<close>

datatype label_ref = LabelName jsstring | LabelObject jsstring

record pull_request =
  pr_number :: nat
  pr_body :: "jsstring option"
  pr_head_sha :: jsstring
  pr_labels :: "label_ref list option"

record event_context =
  ctx_owner :: jsstring
  ctx_repo :: jsstring
  ctx_pr :: pull_request

text \<open>
  The calls of the REST client that the script awaits, with their arguments. A call
  either succeeds or is rejected with an error; an error of the REST client carries
  the HTTP status, any other error (a \<^verbatim>\<open>TypeError\<close>, a network failure) has no
  \<^verbatim>\<open>status\<close> property.
\<close>

datatype call =
    PullsUpdate jsstring jsstring nat jsstring
  | GetLabel jsstring jsstring jsstring
  | CreateLabel jsstring jsstring jsstring jsstring jsstring
  | AddLabels jsstring jsstring nat "jsstring list"
  | RemoveLabel jsstring jsstring nat jsstring

text \<open>The calls that write the pull request body.\<close>

definition is_body_update :: "call \<Rightarrow> bool" where
  "is_body_update c = (case c of PullsUpdate own rep num b \<Rightarrow> True | _ \<Rightarrow> False)"

datatype error = HttpError nat | TypeError | OtherError

fun err_status :: "error \<Rightarrow> nat option" where
  "err_status (HttpError n) = Some n"
| "err_status TypeError = None"
| "err_status OtherError = None"

text \<open>
  The client is a parameter of the script (\<^verbatim>\<open>run ({github, context})\<close>): a call
  acts on the remote state \<open>'w\<close> and answers with \<open>None\<close> (fulfilled) or \<open>Some e\<close>
  (rejected with \<open>e\<close>). A run returns how it ended, the remote state it left and
  the calls it issued, in order.
\<close>

type_synonym 'w github = "call \<Rightarrow> 'w \<Rightarrow> error option \<times> 'w"
type_synonym 'w outcome = "error option \<times> 'w \<times> call list"

section \<open>Constants of the script\<close>

definition targetPrefix :: jsstring where
  "targetPrefix = lit ''database/rentec/schema/migrations/''"

definition START :: jsstring where
  "START = lit ''<!-- DATABASE_CHANGES_START -->''"

definition END :: jsstring where
  "END = lit ''<!-- DATABASE_CHANGES_END -->''"

definition labelName :: jsstring where
  "labelName = lit ''Database changes''"

definition heading :: jsstring where
  "heading = lit ''### '' @ labelName"

definition NL :: jsstring where
  "NL = [0xA]"

section \<open>Change detector\<close>

text \<open>
  \<^verbatim>\<open>files.filter(f => f.status === 'added' && f.filename.startsWith(targetPrefix))\<close>
\<close>

definition addedMigrations :: "file_change list \<Rightarrow> file_change list" where
  "addedMigrations files =
     filter (\<lambda>f. status f = lit ''added'' \<and> startsWith (filename f) targetPrefix) files"

section \<open>Summary renderer\<close>

text \<open>\<^verbatim>\<open>f.filename.split("/").pop()\<close>\<close>

definition basename :: "jsstring \<Rightarrow> jsstring" where
  "basename path = last (js_split path 0x2F)"

definition fileUrl :: "event_context \<Rightarrow> file_change \<Rightarrow> jsstring" where
  "fileUrl ctx f =
     lit ''https://github.com/'' @ ctx_owner ctx @ lit ''/'' @ ctx_repo ctx @ lit ''/blob/''
       @ pr_head_sha (ctx_pr ctx) @ lit ''/'' @ filename f"

definition fileLink :: "event_context \<Rightarrow> file_change \<Rightarrow> jsstring" where
  "fileLink ctx f = lit ''['' @ basename (filename f) @ lit '']('' @ fileUrl ctx f @ lit '')''"

subsection \<open>Flat-list variant\<close>

definition lines_flat :: "event_context \<Rightarrow> file_change list \<Rightarrow> jsstring" where
  "lines_flat ctx fs = join (map (\<lambda>f. lit ''- '' @ fileLink ctx f) fs) NL"

definition section_flat :: "event_context \<Rightarrow> file_change list \<Rightarrow> jsstring" where
  "section_flat ctx fs =
     (if length (lines_flat ctx fs) > 0
      then START @ NL @ heading @ NL @ NL @ lit ''This PR adds the following migration files:''
             @ NL @ NL @ lines_flat ctx fs @ NL @ NL @ END
      else [])"

subsection \<open>Do/undo-aware variant\<close>

text \<open>
  The regular expression of \<^verbatim>\<open>formatMigrations\<close> is only tested against a whole
  basename, so its model is the set of strings it accepts: \<open>remainders r s\<close> lists
  what can be left of \<open>s\<close> after \<open>r\<close> has matched a prefix of it, and the
  anchored expression accepts \<open>s\<close> when nothing can be left.
\<close>

datatype re =
    Cls "jschar \<Rightarrow> bool"
  | Str jsstring
  | Opt re
  | Many "jschar \<Rightarrow> bool"
  | Seq re re

fun remainders :: "re \<Rightarrow> jsstring \<Rightarrow> jsstring list" where
  "remainders (Cls p) [] = []"
| "remainders (Cls p) (c # cs) = (if p c then [cs] else [])"
| "remainders (Str t) s = (if startsWith s t then [drop (length t) s] else [])"
| "remainders (Opt r) s = remainders r s @ [s]"
| "remainders (Many p) [] = [[]]"
| "remainders (Many p) (c # cs) = (c # cs) # (if p c then remainders (Many p) cs else [])"
| "remainders (Seq a b) s = concat (map (remainders b) (remainders a s))"

definition regex_test :: "re \<Rightarrow> jsstring \<Rightarrow> bool" where
  "regex_test r s = ([] \<in> set (remainders r s))"

text \<open>\<^verbatim>\<open>\d\<close>, and the unescaped \<^verbatim>\<open>.\<close> that matches any code unit but a line terminator.\<close>

definition isDigit :: "jschar \<Rightarrow> bool" where
  "isDigit c = (0x30 \<le> c \<and> c \<le> 0x39)"

definition isDot :: "jschar \<Rightarrow> bool" where
  "isDot c = (c \<noteq> 0xA \<and> c \<noteq> 0xD \<and> c \<noteq> 0x2028 \<and> c \<noteq> 0x2029)"

text \<open>\<^verbatim>\<open>/^\d+.(?:un)?do.[\s\S]*?.sql$/\<close>\<close>

definition migration_regex :: re where
  "migration_regex =
     Seq (Cls isDigit) (Seq (Many isDigit)
       (Seq (Cls isDot)
         (Seq (Opt (Str (lit ''un''))) (Seq (Str (lit ''do''))
           (Seq (Cls isDot)
             (Seq (Many (\<lambda>c. True))
               (Seq (Cls isDot) (Str (lit ''sql'')))))))))"

text \<open>
  An object used as a dictionary: an association list with one entry for a key.
  Only the number of keys of \<^verbatim>\<open>pairs\<close> and the properties \<^verbatim>\<open>do\<close> and
  \<^verbatim>\<open>undo\<close> of an entry are ever read, so the order of the keys does not matter.
\<close>

fun put :: "'k \<Rightarrow> 'v \<Rightarrow> ('k \<times> 'v) list \<Rightarrow> ('k \<times> 'v) list" where
  "put k v [] = [(k, v)]"
| "put k v ((k', v') # kvs) = (if k = k' then (k, v) # kvs else (k', v') # put k v kvs)"

type_synonym pairs = "(jsstring \<times> (jsstring \<times> file_change) list) list"

text \<open>An absent array element used as a property key is the key \<^verbatim>\<open>"undefined"\<close>.\<close>

fun property_key :: "jsstring list \<Rightarrow> jsstring" where
  "property_key [] = lit ''undefined''"
| "property_key (x # xs) = x"

text \<open>
  The body of the loop of \<^verbatim>\<open>formatMigrations\<close>:
  \<^verbatim>\<open>const [timestamp, doOrUndo] = name.split(".")\<close>,
  \<^verbatim>\<open>pairs[timestamp] ??= {}\<close>, \<^verbatim>\<open>pairs[timestamp][doOrUndo] = f\<close>.
\<close>

definition add_pair :: "pairs \<Rightarrow> file_change \<Rightarrow> pairs" where
  "add_pair pairs f =
     (let name = basename (filename f) in
      if regex_test migration_regex name then
        (let parts = js_split name 0x2E;
             timestamp = property_key parts;
             doOrUndo = property_key (tl parts);
             entry = (case map_of pairs timestamp of None \<Rightarrow> [] | Some e \<Rightarrow> e)
         in put timestamp (put doOrUndo f entry) pairs)
      else pairs)"

definition group_pairs :: "file_change list \<Rightarrow> pairs" where
  "group_pairs fs = foldl add_pair [] fs"

text \<open>
  \<^verbatim>\<open>formatLoneMigration\<close>. Reading \<^verbatim>\<open>doFile.patch\<close> of an absent \<^verbatim>\<open>doFile\<close>, and
  \<^verbatim>\<open>f.filename\<close> of an absent \<^verbatim>\<open>undoFile\<close> inside \<^verbatim>\<open>fileLink\<close>, throw a
  \<^verbatim>\<open>TypeError\<close>. The code units between the words \<^verbatim>\<open>Do\<close> and \<^verbatim>\<open>Undo\<close> are
  those of the source file. The call of \<^verbatim>\<open>console.log\<close> has no part in the result
  and is left out.
\<close>

definition added_line_count :: "jsstring \<Rightarrow> nat" where
  "added_line_count p =
     length (filter (\<lambda>line. startsWith line (lit ''+'') \<and> \<not> startsWith line (lit ''+++''))
               (js_split p 0xA))"

definition formatLoneMigration ::
  "event_context \<Rightarrow> (jsstring \<times> file_change) list \<Rightarrow> error + jsstring" where
  "formatLoneMigration ctx entry =
     (case map_of entry (lit ''do'') of
        None \<Rightarrow> Inl TypeError
      | Some doFile \<Rightarrow>
          (let p = (case patch doFile of None \<Rightarrow> [] | Some t \<Rightarrow> t);
               doLineCount = added_line_count p;
               doUrl = fileUrl ctx doFile @ lit ''#L1-L'' @ decimal (doLineCount + 1)
           in case map_of entry (lit ''undo'') of
                None \<Rightarrow> Inl TypeError
              | Some undoFile \<Rightarrow>
                  Inr (lit ''Do '' @ [0xF0, 0x178, 0x2018, 0x2021] @ lit '' Undo ''
                         @ [0xF0, 0x178, 0x2018, 0x2030] @ lit '' '' @ fileLink ctx undoFile
                         @ NL @ doUrl)))"

definition formatMultipleMigrations :: "event_context \<Rightarrow> file_change list \<Rightarrow> jsstring" where
  "formatMultipleMigrations ctx am =
     (let lines = join (map (\<lambda>f. lit ''- '' @ fileLink ctx f) am) NL in
      if length lines > 0
      then lit ''This PR adds the following migration files:'' @ NL @ NL @ lines
      else [])"

definition formatMigrations :: "event_context \<Rightarrow> file_change list \<Rightarrow> error + jsstring" where
  "formatMigrations ctx am =
     (let pairs = group_pairs am in
      if length pairs = 1 then formatLoneMigration ctx (snd (hd pairs))
      else Inr (formatMultipleMigrations ctx am))"

definition section_doundo :: "jsstring \<Rightarrow> jsstring" where
  "section_doundo formattedMigrations =
     START @ NL @ heading @ NL @ NL @ formattedMigrations @ NL @ NL @ END"

section \<open>Body reconciler\<close>

text \<open>
  \<^verbatim>\<open>oldBody.replace(new RegExp(`${START}[\\s\\S]*?${END}`, "g"), "")\<close>. The markers
  hold no character that is special in a regular expression. At each position the
  expression matches when \<open>START\<close> is read there and \<open>END\<close> occurs later; the lazy
  quantifier stops at the first such \<open>END\<close>, which \<open>find_after\<close> looks for. After a
  match the search goes on behind it; without one it moves on by one code unit.
\<close>

fun find_after :: "jsstring \<Rightarrow> jsstring \<Rightarrow> jsstring option" where
  "find_after pat [] = (if pat = [] then Some [] else None)"
| "find_after pat (c # cs) =
     (if startsWith (c # cs) pat then Some (drop (length pat) (c # cs))
      else find_after pat cs)"

function replace_sections :: "jsstring \<Rightarrow> jsstring" where
  "replace_sections [] = []"
| "replace_sections (c # cs) =
     (if startsWith (c # cs) START then
        (case find_after END (drop (length START) (c # cs)) of
           Some rest \<Rightarrow> replace_sections rest
         | None \<Rightarrow> c # replace_sections cs)
      else c # replace_sections cs)"
  by pat_completeness auto
termination
proof (relation "measure length")
  show "wf (measure length)" by simp
next
  fix c :: jschar and cs rest :: jsstring
  assume "find_after END (drop (length START) (c # cs)) = Some rest"
  moreover have "find_after p s = Some r \<Longrightarrow> length r \<le> length s" for p s r :: jsstring
    by (induction s) (auto split: if_splits)
  ultimately have "length rest \<le> length (drop (length START) (c # cs))"
    by blast
  moreover have "length START = 31"
    by (simp add: START_def lit_def)
  ultimately show "(rest, c # cs) \<in> measure length"
    by simp
qed simp_all

text \<open>The number of matches of the expression, counted as \<open>replace_sections\<close> finds them.\<close>

function count_sections :: "jsstring \<Rightarrow> nat" where
  "count_sections [] = 0"
| "count_sections (c # cs) =
     (if startsWith (c # cs) START then
        (case find_after END (drop (length START) (c # cs)) of
           Some rest \<Rightarrow> Suc (count_sections rest)
         | None \<Rightarrow> count_sections cs)
      else count_sections cs)"
  by pat_completeness auto
termination
proof (relation "measure length")
  show "wf (measure length)" by simp
next
  fix c :: jschar and cs rest :: jsstring
  assume "find_after END (drop (length START) (c # cs)) = Some rest"
  moreover have "find_after p s = Some r \<Longrightarrow> length r \<le> length s" for p s r :: jsstring
    by (induction s) (auto split: if_splits)
  ultimately have "length rest \<le> length (drop (length START) (c # cs))"
    by blast
  moreover have "length START = 31"
    by (simp add: START_def lit_def)
  ultimately show "(rest, c # cs) \<in> measure length"
    by simp
qed simp_all

text \<open>\<^verbatim>\<open>pr.body || ""\<close>\<close>

definition oldBody_of :: "event_context \<Rightarrow> jsstring" where
  "oldBody_of ctx = (case pr_body (ctx_pr ctx) of None \<Rightarrow> [] | Some b \<Rightarrow> b)"

definition bodySansDbChanges :: "jsstring \<Rightarrow> jsstring" where
  "bodySansDbChanges oldBody = trimEnd (replace_sections oldBody)"

text \<open>\<^verbatim>\<open>[bodySansDbChanges, section].filter(Boolean).join("\n\n")\<close>\<close>

definition newBody_of :: "jsstring \<Rightarrow> jsstring \<Rightarrow> jsstring" where
  "newBody_of oldBody section =
     join (filter (\<lambda>s. s \<noteq> []) [bodySansDbChanges oldBody, section]) (NL @ NL)"

definition update_body :: "'w github \<Rightarrow> event_context \<Rightarrow> jsstring \<Rightarrow> 'w \<Rightarrow> 'w outcome" where
  "update_body gh ctx newBody w =
     (if oldBody_of ctx \<noteq> newBody then
        (let c = PullsUpdate (ctx_owner ctx) (ctx_repo ctx) (pr_number (ctx_pr ctx)) newBody
         in case gh c w of (r, w') \<Rightarrow> (r, w', [c]))
      else (None, w, []))"

section \<open>Label reconciler\<close>

text \<open>
  \<^verbatim>\<open>(pr.labels || []).map(l => typeof l === 'string' ? l : l.name).includes(labelName)\<close>
\<close>

fun label_name :: "label_ref \<Rightarrow> jsstring" where
  "label_name (LabelName n) = n"
| "label_name (LabelObject n) = n"

definition hasLabel :: "event_context \<Rightarrow> bool" where
  "hasLabel ctx =
     (labelName \<in> set (map label_name
        (case pr_labels (ctx_pr ctx) of None \<Rightarrow> [] | Some ls \<Rightarrow> ls)))"

definition ensureLabelExists :: "'w github \<Rightarrow> event_context \<Rightarrow> 'w \<Rightarrow> 'w outcome" where
  "ensureLabelExists gh ctx w =
     (let g = GetLabel (ctx_owner ctx) (ctx_repo ctx) labelName in
      case gh g w of
        (None, w1) \<Rightarrow> (None, w1, [g])
      | (Some e, w1) \<Rightarrow>
          if err_status e = Some 404 then
            (let c = CreateLabel (ctx_owner ctx) (ctx_repo ctx) labelName (lit ''1778d3'')
                       (lit ''PR introduces database migration files'')
             in case gh c w1 of (r, w2) \<Rightarrow> (r, w2, [g, c]))
          else (Some e, w1, [g]))"

definition reconcile_labels ::
  "'w github \<Rightarrow> event_context \<Rightarrow> file_change list \<Rightarrow> 'w \<Rightarrow> 'w outcome" where
  "reconcile_labels gh ctx am w =
     (if length am > 0 then
        (if \<not> hasLabel ctx then
           (case ensureLabelExists gh ctx w of
              (Some e, w1, t1) \<Rightarrow> (Some e, w1, t1)
            | (None, w1, t1) \<Rightarrow>
                (let a = AddLabels (ctx_owner ctx) (ctx_repo ctx) (pr_number (ctx_pr ctx))
                           [labelName]
                 in case gh a w1 of (r, w2) \<Rightarrow> (r, w2, t1 @ [a])))
         else (None, w, []))
      else if hasLabel ctx then
        (let d = RemoveLabel (ctx_owner ctx) (ctx_repo ctx) (pr_number (ctx_pr ctx)) labelName
         in case gh d w of
              (None, w1) \<Rightarrow> (None, w1, [d])
            | (Some e, w1) \<Rightarrow> (if err_status e \<noteq> Some 404 then Some e else None, w1, [d]))
      else (None, w, []))"

section \<open>The two scripts\<close>

text \<open>
  Both scripts end the same way: the body is updated when it changed, then the label
  is reconciled. A rejected call ends the run.
\<close>

definition update_and_label ::
  "'w github \<Rightarrow> event_context \<Rightarrow> file_change list \<Rightarrow> jsstring \<Rightarrow> 'w \<Rightarrow> 'w outcome" where
  "update_and_label gh ctx am section w =
     (case update_body gh ctx (newBody_of (oldBody_of ctx) section) w of
        (Some e, w1, t1) \<Rightarrow> (Some e, w1, t1)
      | (None, w1, t1) \<Rightarrow>
          (case reconcile_labels gh ctx am w1 of (r, w2, t2) \<Rightarrow> (r, w2, t1 @ t2)))"

text \<open>
  \<^verbatim>\<open>run\<close> of the flat-list script, given the listing \<open>files\<close> that
  \<^verbatim>\<open>github.paginate\<close> returned.
\<close>

definition run_flat ::
  "'w github \<Rightarrow> event_context \<Rightarrow> file_change list \<Rightarrow> 'w \<Rightarrow> 'w outcome" where
  "run_flat gh ctx files w =
     (let am = addedMigrations files
      in update_and_label gh ctx am (section_flat ctx am) w)"

text \<open>\<^verbatim>\<open>run\<close> of \<^verbatim>\<open>.github/scripts/pr-db-changes.js\<close>, the do/undo-aware script.\<close>

definition run_doundo ::
  "'w github \<Rightarrow> event_context \<Rightarrow> file_change list \<Rightarrow> 'w \<Rightarrow> 'w outcome" where
  "run_doundo gh ctx files w =
     (let am = addedMigrations files
      in case formatMigrations ctx am of
           Inl e \<Rightarrow> (Some e, w, [])
         | Inr formattedMigrations \<Rightarrow>
             update_and_label gh ctx am (section_doundo formattedMigrations) w)"

section \<open>A remote state for repeated runs\<close>

text \<open>
  Modelled from the spec: the hosting platform behind the REST client, which is no part
  of the repository. What the calls do to the pull request and the repository follows
  the contract of the external interface: the body is replaced as a whole; a label
  definition is found by name or answered with status 404, and is created once; adding
  a label leaves it on the pull request; removing a label that is not on the pull
  request is answered with status 404. The state holds the body, the names of the labels
  on the pull request and the names of the label definitions of the repository.
\<close>

record remote =
  remote_body :: "jsstring option"
  remote_labels :: "jsstring list"
  repo_labels :: "jsstring list"

definition fake_github :: "remote github" where
  "fake_github c w =
     (case c of
        PullsUpdate own rep num b \<Rightarrow> (None, w\<lparr>remote_body := Some b\<rparr>)
      | GetLabel own rep name \<Rightarrow>
          (if name \<in> set (repo_labels w) then None else Some (HttpError 404), w)
      | CreateLabel own rep name color descr \<Rightarrow>
          (if name \<in> set (repo_labels w) then (Some (HttpError 422), w)
           else (None, w\<lparr>repo_labels := name # repo_labels w\<rparr>))
      | AddLabels own rep num names \<Rightarrow>
          (None, w\<lparr>remote_labels :=
                     remote_labels w @ filter (\<lambda>n. n \<notin> set (remote_labels w)) names\<rparr>)
      | RemoveLabel own rep num name \<Rightarrow>
          (if name \<in> set (remote_labels w)
           then (None, w\<lparr>remote_labels := removeAll name (remote_labels w)\<rparr>)
           else (Some (HttpError 404), w)))"

text \<open>The event payload of a run that starts in a given remote state.\<close>

definition event_of :: "event_context \<Rightarrow> remote \<Rightarrow> event_context" where
  "event_of ctx w =
     ctx\<lparr>ctx_pr := (ctx_pr ctx)\<lparr>pr_body := remote_body w,
                                pr_labels := Some (map LabelObject (remote_labels w))\<rparr>\<rparr>"

text \<open>
  Two runs in a row on the same listing: the state the first run leaves, and the outcome
  of the second run started in that state.
\<close>

type_synonym script =
  "remote github \<Rightarrow> event_context \<Rightarrow> file_change list \<Rightarrow> remote \<Rightarrow> remote outcome"

definition state_after ::
  "script \<Rightarrow> event_context \<Rightarrow> file_change list \<Rightarrow> remote \<Rightarrow> remote" where
  "state_after run ctx files w = fst (snd (run fake_github (event_of ctx w) files w))"

definition second_run ::
  "script \<Rightarrow> event_context \<Rightarrow> file_change list \<Rightarrow> remote \<Rightarrow> remote outcome" where
  "second_run run ctx files w =
     run fake_github (event_of ctx (state_after run ctx files w)) files
       (state_after run ctx files w)"

text \<open>The body of the pull request after a run, as the next event would carry it.\<close>

definition body_after ::
  "script \<Rightarrow> event_context \<Rightarrow> file_change list \<Rightarrow> remote \<Rightarrow> jsstring" where
  "body_after run ctx files w = oldBody_of (event_of ctx (state_after run ctx files w))"

text \<open>
  A body written as unrelated text and sections: the text \<open>t0\<close>, then for each pair
  a section with the given content between the markers and the text that follows it.
  \<open>unrelated\<close> is the unrelated text alone, in its order.
\<close>

fun assemble :: "jsstring \<Rightarrow> (jsstring \<times> jsstring) list \<Rightarrow> jsstring" where
  "assemble t0 [] = t0"
| "assemble t0 ((content, t) # rest) = t0 @ START @ content @ END @ assemble t rest"

fun unrelated :: "jsstring \<Rightarrow> (jsstring \<times> jsstring) list \<Rightarrow> jsstring" where
  "unrelated t0 [] = t0"
| "unrelated t0 ((content, t) # rest) = t0 @ unrelated t rest"

section \<open>Example inputs\<close>

text \<open>
  The inputs of the examples below: a pull request of repository \<^verbatim>\<open>acme/app\<close>, added
  files under the migrations directory, a patch with three added lines, bodies with a
  section, and remote states.
\<close>

definition example_context :: event_context where
  "example_context =
     \<lparr>ctx_owner = lit ''acme'', ctx_repo = lit ''app'',
      ctx_pr = \<lparr>pr_number = 7, pr_body = None, pr_head_sha = lit ''abc123'', pr_labels = None\<rparr>\<rparr>"

definition migration :: "string \<Rightarrow> jsstring option \<Rightarrow> file_change" where
  "migration name p =
     \<lparr>filename = lit ''database/rentec/schema/migrations/'' @ lit name,
      status = lit ''added'', patch = p\<rparr>"

definition three_line_patch :: jsstring where
  "three_line_patch =
     lit ''@@ -0,0 +1,3 @@'' @ NL @ lit ''+a'' @ NL @ lit ''+b'' @ NL @ lit ''+c''"


definition lone_pair :: "file_change list" where
  "lone_pair =
     [migration ''20240101.do.add_col.sql'' (Some three_line_patch),
      migration ''20240101.undo.add_col.sql'' None]"

definition body_with_section :: jsstring where
  "body_with_section =
     lit ''Intro'' @ NL @ NL @ START @ NL @ heading @ NL @ NL @ lit ''old summary'' @ NL @ NL @ END"

definition with_body :: "jsstring option \<Rightarrow> event_context" where
  "with_body b = example_context\<lparr>ctx_pr := (ctx_pr example_context)\<lparr>pr_body := b\<rparr>\<rparr>"

definition example_remote :: remote where
  "example_remote =
     \<lparr>remote_body = Some (lit ''Intro'' @ NL), remote_labels = [], repo_labels = []\<rparr>"

definition stray_start_remote :: remote where
  "stray_start_remote =
     \<lparr>remote_body = Some (lit ''Notes '' @ START), remote_labels = [], repo_labels = []\<rparr>"

definition example_sections :: "(jsstring \<times> jsstring) list" where
  "example_sections = [(NL @ lit ''old summary'' @ NL, NL @ lit ''Footer'' @ NL)]"

definition footer_remote :: remote where
  "footer_remote =
     \<lparr>remote_body = Some (assemble (lit ''Intro'' @ NL @ NL) example_sections),
      remote_labels = [], repo_labels = []\<rparr>"

text \<open>What the lone-migration format renders for \<open>lone_pair\<close>.\<close>

definition lone_pair_text :: jsstring where
  "lone_pair_text =
     lit ''Do '' @ [0xF0, 0x178, 0x2018, 0x2021] @ lit '' Undo ''
       @ [0xF0, 0x178, 0x2018, 0x2030]
       @ lit '' [20240101.undo.add_col.sql](https://github.com/acme/app/blob/abc123/database/rentec/schema/migrations/20240101.undo.add_col.sql)''
       @ NL
       @ lit ''https://github.com/acme/app/blob/abc123/database/rentec/schema/migrations/20240101.do.add_col.sql#L1-L4''"

text \<open>
  A patch of a new file with three added lines, \<^verbatim>\<open>a\<close>, \<^verbatim>\<open>++b\<close> and \<^verbatim>\<open>c\<close>: the
  second of them reads \<^verbatim>\<open>+++b\<close> in the patch.
\<close>

definition plus_plus_patch :: jsstring where
  "plus_plus_patch =
     lit ''@@ -0,0 +1,3 @@'' @ NL @ lit ''+a'' @ NL @ lit ''+++b'' @ NL @ lit ''+c''"

definition plus_plus_pair :: "file_change list" where
  "plus_plus_pair =
     [migration ''20240101.do.add_col.sql'' (Some plus_plus_patch),
      migration ''20240101.undo.add_col.sql'' None]"

section \<open>Properties\<close>

subsection \<open>Basic facts about the string functions\<close>

lemma startsWith_prefix: "startsWith s p = prefix p s"
  by (induction s p rule: startsWith.induct) auto

text \<open>\<^verbatim>\<open>split\<close> never returns the empty array, so \<^verbatim>\<open>pop\<close> in \<open>basename\<close> finds an element.\<close>

lemma js_split_not_Nil: "js_split s sep \<noteq> []"
  by (induction s) (auto split: list.splits)

lemma err_status_404: "(err_status e = Some 404) = (e = HttpError 404)"
  by (cases e) auto

lemma join_not_Nil: "xs \<noteq> [] \<Longrightarrow> hd xs \<noteq> [] \<Longrightarrow> join xs sep \<noteq> []"
  by (induction xs sep rule: join.induct) auto

lemma lines_flat_not_Nil: "fs \<noteq> [] \<Longrightarrow> lines_flat ctx fs \<noteq> []"
  unfolding lines_flat_def
  by (rule join_not_Nil) (auto simp: hd_map lit_def)

lemmas eval_defs = lit_def NL_def START_def END_def heading_def labelName_def targetPrefix_def
  migration_def three_line_patch_def example_context_def basename_def fileUrl_def fileLink_def
  regex_test_def migration_regex_def isDigit_def isDot_def isWhiteSpace_def trimEnd_def
  digit_def decimal.simps

subsection \<open>Change detector\<close>

text \<open>
  Claim C5. The change detector returns exactly the records, in their order, whose status
  is \<^verbatim>\<open>added\<close> and whose file name begins with
  \<^verbatim>\<open>database/rentec/schema/migrations/\<close>. The empty listing gives the empty result;
  the path \<^verbatim>\<open>database/rentec/schema/migrations/0001.do.create_x.sql\<close> is detected when
  added and not when modified; an added file outside the prefix is not detected, nor is
  one whose path differs from the prefix in case or in its separators.
\<close>

theorem change_detector_exact_prefix:
  "addedMigrations files =
     filter (\<lambda>f. status f = lit ''added''
                 \<and> (\<exists>rest. filename f = lit ''database/rentec/schema/migrations/'' @ rest)) files
   \<and> addedMigrations [] = []
   \<and> addedMigrations
        [\<lparr>filename = lit ''database/rentec/schema/migrations/0001.do.create_x.sql'',
          status = lit ''added'', patch = p\<rparr>]
      = [\<lparr>filename = lit ''database/rentec/schema/migrations/0001.do.create_x.sql'',
          status = lit ''added'', patch = p\<rparr>]
   \<and> addedMigrations
        [\<lparr>filename = lit ''database/rentec/schema/migrations/0001.do.create_x.sql'',
          status = lit ''modified'', patch = p\<rparr>] = []
   \<and> addedMigrations
        [\<lparr>filename = lit ''other/path/0001.do.sql'', status = lit ''added'', patch = p\<rparr>] = []
   \<and> addedMigrations
        [\<lparr>filename = lit ''Database/rentec/schema/migrations/0001.do.create_x.sql'',
          status = lit ''added'', patch = p\<rparr>] = []
   \<and> addedMigrations
        [\<lparr>filename = lit ''database'' @ [0x5C] @ lit ''rentec'' @ [0x5C] @ lit ''schema''
                       @ [0x5C] @ lit ''migrations'' @ [0x5C] @ lit ''0001.do.create_x.sql'',
          status = lit ''added'', patch = p\<rparr>] = []"
proof -
  have "addedMigrations files =
     filter (\<lambda>f. status f = lit ''added''
                 \<and> (\<exists>rest. filename f = lit ''database/rentec/schema/migrations/'' @ rest)) files"
    by (simp add: addedMigrations_def startsWith_prefix targetPrefix_def prefix_def)
  moreover have "addedMigrations [] = []"
    by (simp add: addedMigrations_def)
  moreover have "addedMigrations
        [\<lparr>filename = lit ''database/rentec/schema/migrations/0001.do.create_x.sql'',
          status = lit ''added'', patch = p\<rparr>]
      = [\<lparr>filename = lit ''database/rentec/schema/migrations/0001.do.create_x.sql'',
          status = lit ''added'', patch = p\<rparr>]"
    by (simp add: addedMigrations_def targetPrefix_def lit_def)
  moreover have "addedMigrations
        [\<lparr>filename = lit ''database/rentec/schema/migrations/0001.do.create_x.sql'',
          status = lit ''modified'', patch = p\<rparr>] = []"
    by (simp add: addedMigrations_def targetPrefix_def lit_def)
  moreover have "addedMigrations
        [\<lparr>filename = lit ''other/path/0001.do.sql'', status = lit ''added'', patch = p\<rparr>] = []"
    by (simp add: addedMigrations_def targetPrefix_def lit_def)
  moreover have "addedMigrations
        [\<lparr>filename = lit ''Database/rentec/schema/migrations/0001.do.create_x.sql'',
          status = lit ''added'', patch = p\<rparr>] = []"
    by (simp add: addedMigrations_def targetPrefix_def lit_def)
  moreover have "addedMigrations
        [\<lparr>filename = lit ''database'' @ [0x5C] @ lit ''rentec'' @ [0x5C] @ lit ''schema''
                       @ [0x5C] @ lit ''migrations'' @ [0x5C] @ lit ''0001.do.create_x.sql'',
          status = lit ''added'', patch = p\<rparr>] = []"
    by (simp add: addedMigrations_def targetPrefix_def lit_def)
  ultimately show ?thesis by blast
qed

subsection \<open>Label reconciler\<close>

text \<open>
  Claim C3. The label reconciler follows the four transitions. Migrations detected and
  label absent: the label definition is looked up by its exact name; a rejection with
  status 404 leads to its creation with color \<^verbatim>\<open>1778d3\<close> and the fixed description,
  any other rejection ends the run with that error; then the label is added. Detected
  and present: no call. Not detected and present: the label is removed, a rejection
  with status 404 counts as success and any other rejection ends the run with that
  error. Not detected and absent: no call.
\<close>

theorem label_reconciler_transitions:
  "reconcile_labels gh ctx am w =
     (let own = ctx_owner ctx; rep = ctx_repo ctx; num = pr_number (ctx_pr ctx);
          getLabel = GetLabel own rep (lit ''Database changes'');
          createLabel = CreateLabel own rep (lit ''Database changes'') (lit ''1778d3'')
                          (lit ''PR introduces database migration files'');
          addLabels = AddLabels own rep num [lit ''Database changes''];
          removeLabel = RemoveLabel own rep num (lit ''Database changes'')
      in
      if am \<noteq> [] then
        (if hasLabel ctx then (None, w, [])
         else
           (case gh getLabel w of
              (None, w1) \<Rightarrow>
                (case gh addLabels w1 of (r, w2) \<Rightarrow> (r, w2, [getLabel, addLabels]))
            | (Some e, w1) \<Rightarrow>
                if e = HttpError 404 then
                  (case gh createLabel w1 of
                     (None, w2) \<Rightarrow>
                       (case gh addLabels w2 of
                          (r, w3) \<Rightarrow> (r, w3, [getLabel, createLabel, addLabels]))
                   | (Some e', w2) \<Rightarrow> (Some e', w2, [getLabel, createLabel]))
                else (Some e, w1, [getLabel])))
      else
        (if hasLabel ctx then
           (case gh removeLabel w of
              (None, w1) \<Rightarrow> (None, w1, [removeLabel])
            | (Some e, w1) \<Rightarrow>
                (if e = HttpError 404 then None else Some e, w1, [removeLabel]))
         else (None, w, [])))"
  by (auto simp: reconcile_labels_def ensureLabelExists_def labelName_def err_status_404 Let_def
           split: prod.splits option.splits)

subsection \<open>The two variants where the grouping has no single timestamp\<close>





subsection \<open>The lone-migration format\<close>

text \<open>
  What \<open>formatMigrations\<close> returns when the grouping has exactly one timestamp key
  whose entry holds a \<^verbatim>\<open>do\<close> and an \<^verbatim>\<open>undo\<close> file: the link to the undo file, then
  the URL of the do file with the fragment \<^verbatim>\<open>#L1-L\<close> and the line count plus one.
\<close>

lemma formatMigrations_lone:
  assumes "group_pairs am = [(timestamp, entry)]"
    and "map_of entry (lit ''do'') = Some doFile"
    and "map_of entry (lit ''undo'') = Some undoFile"
  shows "formatMigrations ctx am =
     Inr (lit ''Do '' @ [0xF0, 0x178, 0x2018, 0x2021] @ lit '' Undo ''
          @ [0xF0, 0x178, 0x2018, 0x2030] @ lit '' [''
          @ basename (filename undoFile) @ lit '']('' @ fileUrl ctx undoFile @ lit '')'' @ NL
          @ fileUrl ctx doFile @ lit ''#L1-L''
          @ decimal (added_line_count (case patch doFile of None \<Rightarrow> [] | Some t \<Rightarrow> t) + 1))"
  using assms
  by (simp add: formatMigrations_def formatLoneMigration_def fileLink_def Let_def lit_def)

text \<open>The example of the specification: three added lines give \<^verbatim>\<open>#L1-L4\<close>.\<close>

lemma group_lone_pair:
  "group_pairs lone_pair =
     [(lit ''20240101'',
       [(lit ''do'', migration ''20240101.do.add_col.sql'' (Some three_line_patch)),
        (lit ''undo'', migration ''20240101.undo.add_col.sql'' None)])]"
  by (simp add: group_pairs_def add_pair_def lone_pair_def Let_def eval_defs)

lemma format_lone_pair: "formatMigrations example_context lone_pair = Inr lone_pair_text"
proof -
  have d: "map_of [(lit ''do'', migration ''20240101.do.add_col.sql'' (Some three_line_patch)),
        (lit ''undo'', migration ''20240101.undo.add_col.sql'' None)] (lit ''do'')
        = Some (migration ''20240101.do.add_col.sql'' (Some three_line_patch))"
    by (simp add: lit_def)
  have u: "map_of [(lit ''do'', migration ''20240101.do.add_col.sql'' (Some three_line_patch)),
        (lit ''undo'', migration ''20240101.undo.add_col.sql'' None)] (lit ''undo'')
        = Some (migration ''20240101.undo.add_col.sql'' None)"
    by (simp add: lit_def)
  show ?thesis
    using formatMigrations_lone [OF group_lone_pair d u, of example_context]
    by (simp add: lone_pair_text_def added_line_count_def eval_defs)
qed

text \<open>
  Claim C6, evaluated. The do file's patch holds the hunk header and the three added
  lines \<^verbatim>\<open>+a\<close>, \<^verbatim>\<open>+++b\<close> and \<^verbatim>\<open>+c\<close>: three lines begin with \<^verbatim>\<open>+\<close> and none
  of them is a header line of the patch. The code leaves out every line that begins
  with \<^verbatim>\<open>+++\<close>, counts two and renders the fragment \<^verbatim>\<open>#L1-L3\<close>, where the count
  of the claim, and the source's own comment on it, give \<^verbatim>\<open>#L1-L4\<close>.
\<close>

theorem added_line_with_two_plus_signs_not_counted:
  "js_split plus_plus_patch 0xA = [lit ''@@ -0,0 +1,3 @@'', lit ''+a'', lit ''+++b'', lit ''+c'']
   \<and> filter (\<lambda>line. startsWith line (lit ''+'')) (js_split plus_plus_patch 0xA)
       = [lit ''+a'', lit ''+++b'', lit ''+c'']
   \<and> added_line_count plus_plus_patch = 2
   \<and> formatMigrations example_context plus_plus_pair =
     Inr (lit ''Do '' @ [0xF0, 0x178, 0x2018, 0x2021] @ lit '' Undo ''
          @ [0xF0, 0x178, 0x2018, 0x2030]
          @ lit '' [20240101.undo.add_col.sql](https://github.com/acme/app/blob/abc123/database/rentec/schema/migrations/20240101.undo.add_col.sql)''
          @ NL
          @ lit ''https://github.com/acme/app/blob/abc123/database/rentec/schema/migrations/20240101.do.add_col.sql#L1-L3'')"
proof -
  have sp: "js_split plus_plus_patch 0xA
              = [lit ''@@ -0,0 +1,3 @@'', lit ''+a'', lit ''+++b'', lit ''+c'']"
    by (simp add: plus_plus_patch_def eval_defs)
  have fl: "filter (\<lambda>line. startsWith line (lit ''+'')) (js_split plus_plus_patch 0xA)
              = [lit ''+a'', lit ''+++b'', lit ''+c'']"
    unfolding sp by (simp add: lit_def)
  have cnt: "added_line_count plus_plus_patch = 2"
    unfolding added_line_count_def sp by (simp add: lit_def)
  have g: "group_pairs plus_plus_pair =
     [(lit ''20240101'',
       [(lit ''do'', migration ''20240101.do.add_col.sql'' (Some plus_plus_patch)),
        (lit ''undo'', migration ''20240101.undo.add_col.sql'' None)])]"
    by (simp add: group_pairs_def add_pair_def plus_plus_pair_def Let_def
        migration_def basename_def regex_test_def migration_regex_def isDigit_def isDot_def
        lit_def)
  have d: "map_of [(lit ''do'', migration ''20240101.do.add_col.sql'' (Some plus_plus_patch)),
        (lit ''undo'', migration ''20240101.undo.add_col.sql'' None)] (lit ''do'')
        = Some (migration ''20240101.do.add_col.sql'' (Some plus_plus_patch))"
    by (simp add: lit_def)
  have u: "map_of [(lit ''do'', migration ''20240101.do.add_col.sql'' (Some plus_plus_patch)),
        (lit ''undo'', migration ''20240101.undo.add_col.sql'' None)] (lit ''undo'')
        = Some (migration ''20240101.undo.add_col.sql'' None)"
    by (simp add: lit_def)
  have "formatMigrations example_context plus_plus_pair =
     Inr (lit ''Do '' @ [0xF0, 0x178, 0x2018, 0x2021] @ lit '' Undo ''
          @ [0xF0, 0x178, 0x2018, 0x2030]
          @ lit '' [20240101.undo.add_col.sql](https://github.com/acme/app/blob/abc123/database/rentec/schema/migrations/20240101.undo.add_col.sql)''
          @ NL
          @ lit ''https://github.com/acme/app/blob/abc123/database/rentec/schema/migrations/20240101.do.add_col.sql#L1-L3'')"
    using formatMigrations_lone [OF g d u, of example_context]
    by (simp add: cnt migration_def example_context_def basename_def fileUrl_def NL_def
        lit_def digit_def decimal.simps)
  with sp fl cnt show ?thesis by (intro conjI)
qed

subsection \<open>The flat-list script without migrations and without a section\<close>

lemma count_sections_0_replace: "count_sections s = 0 \<Longrightarrow> replace_sections s = s"
  by (induction s rule: replace_sections.induct) (auto split: option.splits if_splits)

lemma trimEnd_changes_iff: "(trimEnd s \<noteq> s) = (s \<noteq> [] \<and> isWhiteSpace (last s))"
proof (cases s rule: rev_cases)
  case Nil
  then show ?thesis by (simp add: trimEnd_def)
next
  case (snoc xs x)
  have "length (dropWhile isWhiteSpace (rev xs)) \<le> length xs"
    by (metis length_dropWhile_le length_rev)
  then have "rev (dropWhile isWhiteSpace (rev xs)) \<noteq> xs @ [x]"
    by (metis length_rev length_append_singleton Suc_n_not_le_n)
  with snoc show ?thesis by (simp add: trimEnd_def)
qed

lemma filter_update_labels: "filter is_body_update (snd (snd (reconcile_labels gh ctx am w))) = []"
  by (auto simp: reconcile_labels_def ensureLabelExists_def is_body_update_def Let_def
           split: prod.splits option.splits)

lemma filter_update_labelsD:
  "reconcile_labels gh ctx am w = (r, w', t) \<Longrightarrow> filter is_body_update t = []"
  using filter_update_labels [of gh ctx am w] by simp

lemma update_and_label_updates:
  "filter is_body_update (snd (snd (update_and_label gh ctx am sec w)))
     = (if oldBody_of ctx \<noteq> newBody_of (oldBody_of ctx) sec
        then [PullsUpdate (ctx_owner ctx) (ctx_repo ctx) (pr_number (ctx_pr ctx))
                (newBody_of (oldBody_of ctx) sec)]
        else [])"
proof (cases "oldBody_of ctx = newBody_of (oldBody_of ctx) sec")
  case True
  obtain r w2 t2 where rl: "reconcile_labels gh ctx am w = (r, w2, t2)"
    by (cases "reconcile_labels gh ctx am w") auto
  show ?thesis
    using True rl filter_update_labelsD [OF rl]
    by (simp add: update_and_label_def update_body_def)
next
  case False
  let ?c = "PullsUpdate (ctx_owner ctx) (ctx_repo ctx) (pr_number (ctx_pr ctx))
              (newBody_of (oldBody_of ctx) sec)"
  obtain e w1 where g: "gh ?c w = (e, w1)"
    by (cases "gh ?c w") auto
  obtain r w2 t2 where rl: "reconcile_labels gh ctx am w1 = (r, w2, t2)"
    by (cases "reconcile_labels gh ctx am w1") auto
  show ?thesis
    using False g rl filter_update_labelsD [OF rl]
    by (cases e) (simp_all add: update_and_label_def update_body_def Let_def is_body_update_def)
qed

text \<open>
  Claim C10. In the flat-list script, when no migration file is detected and the
  expression of the body reconciler matches nowhere in the body, the new body is the
  old body without its trailing white space, and the body is updated exactly when the
  old body ends with a white-space code unit.
\<close>

theorem flat_no_section_trims_only:
  assumes "addedMigrations files = []"
    and "count_sections (oldBody_of ctx) = 0"
  shows "newBody_of (oldBody_of ctx) (section_flat ctx (addedMigrations files))
           = trimEnd (oldBody_of ctx)
       \<and> filter is_body_update (snd (snd (run_flat gh ctx files w)))
           = (if oldBody_of ctx \<noteq> [] \<and> isWhiteSpace (last (oldBody_of ctx))
              then [PullsUpdate (ctx_owner ctx) (ctx_repo ctx) (pr_number (ctx_pr ctx))
                      (trimEnd (oldBody_of ctx))]
              else [])"
proof -
  have sec: "section_flat ctx (addedMigrations files) = []"
    by (simp add: assms(1) section_flat_def lines_flat_def)
  have nb: "newBody_of (oldBody_of ctx) [] = trimEnd (oldBody_of ctx)"
    by (simp add: newBody_of_def bodySansDbChanges_def count_sections_0_replace [OF assms(2)])
  have "filter is_body_update (snd (snd (run_flat gh ctx files w)))
           = (if oldBody_of ctx \<noteq> trimEnd (oldBody_of ctx)
              then [PullsUpdate (ctx_owner ctx) (ctx_repo ctx) (pr_number (ctx_pr ctx))
                      (trimEnd (oldBody_of ctx))]
              else [])"
    using update_and_label_updates [of gh ctx "addedMigrations files" "[]" w]
    by (simp add: run_flat_def sec nb Let_def)
  moreover have "(oldBody_of ctx \<noteq> trimEnd (oldBody_of ctx))
      = (oldBody_of ctx \<noteq> [] \<and> isWhiteSpace (last (oldBody_of ctx)))"
    using trimEnd_changes_iff [of "oldBody_of ctx"] by auto
  ultimately show ?thesis by (simp add: sec nb)
qed

theorem flat_no_section_trims_only_witness:
  "addedMigrations [] = []
   \<and> count_sections (oldBody_of (with_body (Some (lit ''Intro'' @ NL)))) = 0
   \<and> newBody_of (oldBody_of (with_body (Some (lit ''Intro'' @ NL))))
        (section_flat (with_body (Some (lit ''Intro'' @ NL))) (addedMigrations []))
       = lit ''Intro''
   \<and> filter is_body_update
        (snd (snd (run_flat (\<lambda>c w. (None, w)) (with_body (Some (lit ''Intro'' @ NL))) [] ())))
       = [PullsUpdate (lit ''acme'') (lit ''app'') 7 (lit ''Intro'')]"
proof -
  have a: "addedMigrations [] = []"
    by (simp add: addedMigrations_def)
  have b: "count_sections (oldBody_of (with_body (Some (lit ''Intro'' @ NL)))) = 0"
    by (simp add: oldBody_of_def with_body_def eval_defs)
  show ?thesis
    using flat_no_section_trims_only [OF a b, of "\<lambda>c w. (None, w)" "()"] a b
    by (simp add: oldBody_of_def with_body_def eval_defs)
qed

subsection \<open>The do/undo-aware script without migrations\<close>

text \<open>
  Claim C1, evaluated on the do/undo-aware script. With no file in the listing and a
  body that holds a section, the rendered summary is empty, yet the new body ends with
  a section made of the markers and the heading; the flat-list script computes the body
  without any section from the same input.
\<close>

theorem doundo_no_migrations_appends_heading_section:
  "formatMigrations example_context (addedMigrations []) = Inr []
   \<and> count_sections body_with_section = 1
   \<and> newBody_of body_with_section (section_doundo [])
       = lit ''Intro'' @ NL @ NL @ START @ NL @ lit ''### Database changes'' @ NL @ NL @ NL @ NL @ END
   \<and> count_sections (newBody_of body_with_section (section_doundo [])) = 1
   \<and> newBody_of body_with_section (section_flat example_context (addedMigrations []))
       = lit ''Intro''"
proof -
  have "formatMigrations example_context (addedMigrations []) = Inr []"
    by (simp add: formatMigrations_def formatMultipleMigrations_def addedMigrations_def group_pairs_def)
  moreover have "count_sections body_with_section = 1"
    by (simp add: body_with_section_def eval_defs)
  moreover have nb: "newBody_of body_with_section (section_doundo [])
       = lit ''Intro'' @ NL @ NL @ START @ NL @ lit ''### Database changes'' @ NL @ NL @ NL @ NL @ END"
    by (simp add: body_with_section_def newBody_of_def bodySansDbChanges_def section_doundo_def eval_defs)
  moreover have "count_sections (lit ''Intro'' @ NL @ NL @ START @ NL @ lit ''### Database changes'' @ NL @ NL @ NL @ NL @ END) = 1"
    by (simp add: eval_defs)
  moreover have "newBody_of body_with_section (section_flat example_context (addedMigrations []))
       = lit ''Intro''"
    by (simp add: body_with_section_def newBody_of_def bodySansDbChanges_def section_flat_def 
         lines_flat_def addedMigrations_def eval_defs)
  ultimately show ?thesis by simp
qed

subsection \<open>Grouping by timestamp\<close>

text \<open>
  Claim C7, evaluated. The dots of the expression are not escaped, so the basename
  \<^verbatim>\<open>20240101_do_add_col.sql\<close> is accepted; split at its only dot it is grouped
  under the key \<^verbatim>\<open>20240101_do_add_col\<close> with the role \<^verbatim>\<open>sql\<close>, and the
  lone-migration format then fails on the absent \<^verbatim>\<open>do\<close> file.
\<close>

theorem underscore_basename_is_grouped:
  "regex_test migration_regex (lit ''20240101_do_add_col.sql'')
   \<and> group_pairs [migration ''20240101_do_add_col.sql'' None]
       = [(lit ''20240101_do_add_col'', [(lit ''sql'', migration ''20240101_do_add_col.sql'' None)])]
   \<and> formatMigrations example_context [migration ''20240101_do_add_col.sql'' None] = Inl TypeError"
proof -
  have r: "regex_test migration_regex (lit ''20240101_do_add_col.sql'')"
    by (simp add: eval_defs)
  have g: "group_pairs [migration ''20240101_do_add_col.sql'' None]
       = [(lit ''20240101_do_add_col'', [(lit ''sql'', migration ''20240101_do_add_col.sql'' None)])]"
    by (simp add: group_pairs_def add_pair_def Let_def eval_defs)
  have "formatMigrations example_context [migration ''20240101_do_add_col.sql'' None] = Inl TypeError"
    by (simp add: formatMigrations_def formatLoneMigration_def g Let_def) (simp add: lit_def)
  with r g show ?thesis by simp
qed

text \<open>
  Claim C8, evaluated. With the \<^verbatim>\<open>do\<close> file of a timestamp alone in the listing, the
  lone-migration format throws a \<^verbatim>\<open>TypeError\<close> on the absent \<^verbatim>\<open>undo\<close> file, and
  the run ends with it before any call.
\<close>

theorem lone_do_without_undo_throws:
  "group_pairs [migration ''20240101.do.add_col.sql'' (Some three_line_patch)]
     = [(lit ''20240101'', [(lit ''do'', migration ''20240101.do.add_col.sql'' (Some three_line_patch))])]
   \<and> formatMigrations example_context [migration ''20240101.do.add_col.sql'' (Some three_line_patch)]
       = Inl TypeError
   \<and> run_doundo gh example_context [migration ''20240101.do.add_col.sql'' (Some three_line_patch)] w
       = (Some TypeError, w, [])"
proof -
  let ?f = "migration ''20240101.do.add_col.sql'' (Some three_line_patch)"
  have g: "group_pairs [?f] = [(lit ''20240101'', [(lit ''do'', ?f)])]"
    by (simp add: group_pairs_def add_pair_def Let_def eval_defs)
  have f: "formatMigrations example_context [?f] = Inl TypeError"
    by (simp add: formatMigrations_def formatLoneMigration_def g Let_def) (simp add: lit_def)
  have a: "addedMigrations [?f] = [?f]"
    by (simp add: addedMigrations_def eval_defs)
  have "run_doundo gh example_context [?f] w = (Some TypeError, w, [])"
    by (simp add: run_doundo_def a f)
  with g f show ?thesis by simp
qed


subsection \<open>Substrings and the section expression\<close>

lemma START_Cons: "(0x3C::jschar) # tl START = START"
  by (simp add: START_def lit_def)

lemma START_append_Cons: "(0x3C::jschar) # (tl START @ y) = START @ y"
  by (simp add: START_def lit_def)

lemma START_tl: "(0x3C::jschar) \<notin> set (tl START)" "(0xA::jschar) \<notin> set (tl START)"
  by (simp_all add: START_def lit_def)

lemma END_Cons: "(0x3C::jschar) # tl END = END"
  by (simp add: END_def lit_def)

lemma END_append_Cons: "(0x3C::jschar) # (tl END @ y) = END @ y"
  by (simp add: END_def lit_def)

lemma END_tl: "(0x3C::jschar) \<notin> set (tl END)" "(0xA::jschar) \<notin> set (tl END)"
  by (simp_all add: END_def lit_def)

lemma length_START: "length START = 31"
  by (simp add: START_def lit_def)

lemma occurs_iff: "occurs p s = (\<exists>a b. s = a @ p @ b)"
proof (induction s)
  case Nil
  then show ?case by auto
next
  case (Cons c cs)
  show ?case
  proof
    assume "occurs p (c # cs)"
    then consider "prefix p (c # cs)" | "occurs p cs"
      by (auto simp: startsWith_prefix)
    then show "\<exists>a b. c # cs = a @ p @ b"
    proof cases
      case 1
      then obtain b where "c # cs = p @ b" by (auto simp: prefix_def)
      then have "c # cs = [] @ p @ b" by simp
      then show ?thesis by blast
    next
      case 2
      with Cons.IH obtain a b where "cs = a @ p @ b" by blast
      then have "c # cs = (c # a) @ p @ b" by simp
      then show ?thesis by blast
    qed
  next
    assume "\<exists>a b. c # cs = a @ p @ b"
    then obtain a b where ab: "c # cs = a @ p @ b" by blast
    show "occurs p (c # cs)"
    proof (cases a)
      case Nil
      with ab have "prefix p (c # cs)" by (simp add: prefix_def)
      then show ?thesis by (simp add: startsWith_prefix)
    next
      case (Cons x a')
      with ab have "cs = a' @ p @ b" by simp
      with Cons.IH have "occurs p cs" by blast
      then show ?thesis by simp
    qed
  qed
qed

lemma occurs_Cons_in_set: "occurs (c # t) s \<Longrightarrow> c \<in> set s"
  by (auto simp: occurs_iff)

lemma occurs_prefix: "prefix p s \<Longrightarrow> occurs p s"
  by (cases s) (auto simp: startsWith_prefix)

lemma occurs_mid: "occurs p s \<Longrightarrow> occurs p (a @ s @ b)"
proof -
  assume "occurs p s"
  then obtain x y where "s = x @ p @ y" by (auto simp: occurs_iff)
  then have "a @ s @ b = (a @ x) @ p @ (y @ b)" by simp
  then show ?thesis unfolding occurs_iff by blast
qed

lemma occurs_append_left: "occurs p s \<Longrightarrow> occurs p (a @ s)"
  using occurs_mid [of p s a "[]"] by simp

lemma occurs_append_right: "occurs p s \<Longrightarrow> occurs p (s @ b)"
  using occurs_mid [of p s "[]" b] by simp

text \<open>
  A pattern whose first code unit does not occur again in it cannot begin inside a
  text that does not hold it and end inside a following copy of itself.
\<close>

lemma no_straddle:
  assumes "c \<notin> set t" and "\<not> occurs (c # t) r" and "r \<noteq> []"
  shows "\<not> prefix (c # t) (r @ c # y)"
proof
  assume "prefix (c # t) (r @ c # y)"
  then consider "prefix (c # t) r" | us where "c # t = r @ us" "prefix us (c # y)"
    by (auto simp: prefix_append)
  then show False
  proof cases
    case 1
    with assms(2) show False by (simp add: occurs_prefix)
  next
    case 2
    show False
    proof (cases us)
      case Nil
      with 2 have "prefix (c # t) r" by simp
      with assms(2) show False by (simp add: occurs_prefix)
    next
      case (Cons u us')
      with 2 have "u = c" by simp
      moreover from 2 assms(3) Cons have "u \<in> set t"
        by (cases r) auto
      ultimately show False using assms(1) by simp
    qed
  qed
qed

lemma not_occurs_append_text:
  assumes "\<not> occurs (c # t) m" and "c \<notin> set b" and "b = [] \<or> hd b \<notin> set t"
  shows "\<not> occurs (c # t) (m @ b)"
  using assms(1)
proof (induction m)
  case Nil
  show ?case using assms(2) occurs_Cons_in_set [of c t b] by auto
next
  case (Cons x m')
  then have np: "\<not> prefix (c # t) (x # m')" and no: "\<not> occurs (c # t) m'"
    by (simp_all add: startsWith_prefix)
  have "\<not> prefix (c # t) ((x # m') @ b)"
  proof
    assume "prefix (c # t) ((x # m') @ b)"
    then consider "prefix (c # t) (x # m')" | us where "c # t = (x # m') @ us" "prefix us b"
      by (auto simp: prefix_append)
    then show False
    proof cases
      case 1
      with np show False by simp
    next
      case 2
      show False
      proof (cases us)
        case Nil
        with 2 np show False by simp
      next
        case (Cons u us')
        with 2 have "b \<noteq> []" and "hd b = u" and "u \<in> set t"
          by (auto simp: prefix_def)
        with assms(3) show False by simp
      qed
    qed
  qed
  with Cons.IH [OF no] show ?case
    by (simp add: startsWith_prefix)
qed

lemma not_occurs_text_append:
  assumes "\<not> occurs (c # t) s" and "c \<notin> set a"
  shows "\<not> occurs (c # t) (a @ s)"
  using assms(2) by (induction a) (auto simp: assms(1))

lemma find_after_first:
  assumes "c \<notin> set t" and "\<not> occurs (c # t) m"
  shows "find_after (c # t) (m @ (c # t) @ rest) = Some rest"
  using assms(2)
proof (induction m)
  case Nil
  show ?case by (simp add: startsWith_prefix)
next
  case (Cons x m')
  then have no: "\<not> occurs (c # t) m'" by simp
  have "\<not> prefix (c # t) ((x # m') @ c # (t @ rest))"
    by (rule no_straddle [OF assms(1) Cons.prems]) simp
  then have ns: "\<not> startsWith (x # (m' @ (c # t) @ rest)) (c # t)"
    unfolding startsWith_prefix by simp
  have "find_after (c # t) ((x # m') @ (c # t) @ rest)
          = find_after (c # t) (m' @ (c # t) @ rest)"
    using ns by (simp only: append_Cons find_after.simps if_False)
  with Cons.IH [OF no] show ?case by simp
qed

lemma find_after_END:
  assumes "\<not> occurs END m"
  shows "find_after END (m @ END @ rest) = Some rest"
proof -
  have "\<not> occurs (0x3C # tl END) m"
    unfolding END_Cons by (rule assms)
  from find_after_first [OF END_tl(1) this, of rest] show ?thesis
    unfolding END_Cons .
qed

lemma START_no_straddle:
  assumes "\<not> occurs START r" and "r \<noteq> []"
  shows "\<not> prefix START (r @ START @ y)"
proof -
  have "\<not> occurs (0x3C # tl START) r"
    unfolding START_Cons by (rule assms(1))
  from no_straddle [OF START_tl(1) this assms(2), of "tl START @ y"] show ?thesis
    unfolding START_Cons START_append_Cons .
qed

lemma replace_sections_no_START: "\<not> occurs START s \<Longrightarrow> replace_sections s = s"
  by (induction s) auto

lemma count_sections_no_START: "\<not> occurs START s \<Longrightarrow> count_sections s = 0"
  by (induction s) auto

lemma at_START:
  assumes "\<not> occurs END mid"
  shows "replace_sections (START @ mid @ END @ rest) = replace_sections rest"
    and "count_sections (START @ mid @ END @ rest) = Suc (count_sections rest)"
proof -
  let ?X = "tl START @ mid @ END @ rest"
  have eq: "0x3C # ?X = START @ mid @ END @ rest"
    by (rule START_append_Cons)
  have p: "startsWith (0x3C # ?X) START"
    unfolding eq by (simp add: startsWith_prefix)
  have d: "find_after END (drop (length START) (0x3C # ?X)) = Some rest"
    unfolding eq by (simp add: find_after_END [OF assms])
  have "replace_sections (0x3C # ?X) = replace_sections rest"
    by (simp only: replace_sections.simps p d if_True option.case)
  then show "replace_sections (START @ mid @ END @ rest) = replace_sections rest"
    unfolding eq .
  have "count_sections (0x3C # ?X) = Suc (count_sections rest)"
    by (simp only: count_sections.simps p d if_True option.case)
  then show "count_sections (START @ mid @ END @ rest) = Suc (count_sections rest)"
    unfolding eq .
qed

lemma replace_sections_text_section:
  assumes "\<not> occurs START r" and "\<not> occurs END mid"
  shows "replace_sections (r @ START @ mid @ END @ rest) = r @ replace_sections rest"
  using assms(1)
proof (induction r)
  case Nil
  show ?case using at_START(1) [OF assms(2)] by simp
next
  case (Cons x r')
  from Cons.prems have no: "\<not> occurs START r'" by simp
  have "\<not> prefix START ((x # r') @ START @ mid @ END @ rest)"
    by (rule START_no_straddle [OF Cons.prems]) simp
  then have ns: "\<not> startsWith (x # (r' @ START @ mid @ END @ rest)) START"
    unfolding startsWith_prefix by simp
  have "replace_sections ((x # r') @ START @ mid @ END @ rest)
          = x # replace_sections (r' @ START @ mid @ END @ rest)"
    using ns by (simp only: append_Cons replace_sections.simps if_False)
  with Cons.IH [OF no] show ?case by simp
qed

lemma count_sections_text_section:
  assumes "\<not> occurs START r" and "\<not> occurs END mid"
  shows "count_sections (r @ START @ mid @ END @ rest) = Suc (count_sections rest)"
  using assms(1)
proof (induction r)
  case Nil
  show ?case using at_START(2) [OF assms(2)] by simp
next
  case (Cons x r')
  from Cons.prems have no: "\<not> occurs START r'" by simp
  have "\<not> prefix START ((x # r') @ START @ mid @ END @ rest)"
    by (rule START_no_straddle [OF Cons.prems]) simp
  then have ns: "\<not> startsWith (x # (r' @ START @ mid @ END @ rest)) START"
    unfolding startsWith_prefix by simp
  have "count_sections ((x # r') @ START @ mid @ END @ rest)
          = count_sections (r' @ START @ mid @ END @ rest)"
    using ns by (simp only: append_Cons count_sections.simps if_False)
  with Cons.IH [OF no] show ?case by simp
qed

lemma trimEnd_idem: "trimEnd (trimEnd s) = trimEnd s"
  by (simp add: trimEnd_def)

lemma trimEnd_NL_NL: "trimEnd (s @ NL @ NL) = trimEnd s"
  by (simp add: trimEnd_def NL_def isWhiteSpace_def)

lemma trimEnd_decomp: "s = trimEnd s @ rev (takeWhile isWhiteSpace (rev s))"
proof -
  have "rev (dropWhile isWhiteSpace (rev s)) @ rev (takeWhile isWhiteSpace (rev s))
          = rev (takeWhile isWhiteSpace (rev s) @ dropWhile isWhiteSpace (rev s))"
    by (simp only: rev_append)
  also have "\<dots> = s"
    by (simp only: takeWhile_dropWhile_id rev_rev_ident)
  finally show ?thesis by (simp add: trimEnd_def)
qed

lemma bodySansDbChanges_Nil: "bodySansDbChanges [] = []"
  by (simp add: bodySansDbChanges_def trimEnd_def)

lemma START_not_Nil: "START \<noteq> []"
  using length_START by auto

lemma not_occurs_START_Nil: "\<not> occurs START []"
  using START_not_Nil by simp

lemma occurs_trimEnd: "occurs p (trimEnd s) \<Longrightarrow> occurs p s"
  using occurs_append_right [of p "trimEnd s" "rev (takeWhile isWhiteSpace (rev s))"]
    trimEnd_decomp [of s] by simp

lemma newBody_of_cases:
  "newBody_of old sec =
     (if bodySansDbChanges old = [] then sec
      else if sec = [] then bodySansDbChanges old
      else bodySansDbChanges old @ NL @ NL @ sec)"
  by (simp add: newBody_of_def)

lemma not_occurs_START_NL_NL:
  assumes "\<not> occurs START r"
  shows "\<not> occurs START (r @ NL @ NL)"
proof -
  have "\<not> occurs (0x3C # tl START) r"
    unfolding START_Cons by (rule assms)
  then have "\<not> occurs (0x3C # tl START) (r @ NL @ NL)"
    by (rule not_occurs_append_text) (use START_tl in \<open>simp_all add: NL_def\<close>)
  then show ?thesis unfolding START_Cons .
qed

lemma newBody_idem_empty:
  assumes "\<not> occurs START (replace_sections old)"
  shows "newBody_of (newBody_of old []) [] = newBody_of old []"
proof -
  let ?r = "bodySansDbChanges old"
  have r: "\<not> occurs START ?r"
    using assms occurs_trimEnd unfolding bodySansDbChanges_def by blast
  have "bodySansDbChanges ?r = ?r"
    by (simp add: bodySansDbChanges_def [of ?r] replace_sections_no_START [OF r])
       (simp add: bodySansDbChanges_def trimEnd_idem)
  then show ?thesis by (simp add: newBody_of_cases bodySansDbChanges_Nil)
qed

lemma newBody_of_again:
  assumes "sec \<noteq> []"
    and "bodySansDbChanges sec = []"
    and "bodySansDbChanges (bodySansDbChanges old @ NL @ NL @ sec) = bodySansDbChanges old"
  shows "newBody_of (newBody_of old sec) sec = newBody_of old sec"
proof (cases "bodySansDbChanges old = []")
  case True
  then show ?thesis using assms(2) by (simp add: newBody_of_cases)
next
  case False
  then have "newBody_of old sec = bodySansDbChanges old @ NL @ NL @ sec"
    using assms(1) by (simp add: newBody_of_cases)
  then show ?thesis
    using False assms(1,3) by (simp add: newBody_of_cases)
qed

lemma newBody_idem_section:
  assumes "\<not> occurs START (replace_sections old)" and "\<not> occurs END mid"
  shows "newBody_of (newBody_of old (START @ mid @ END)) (START @ mid @ END)
           = newBody_of old (START @ mid @ END)"
    and "count_sections (newBody_of old (START @ mid @ END)) = 1"
proof -
  let ?r = "bodySansDbChanges old"
  define sec where "sec = START @ mid @ END"
  have sec: "sec \<noteq> []"
    using START_not_Nil by (simp add: sec_def)
  have r: "\<not> occurs START ?r"
    using assms(1) occurs_trimEnd unfolding bodySansDbChanges_def by blast
  have tr: "trimEnd ?r = ?r"
    by (simp add: bodySansDbChanges_def trimEnd_idem)
  have "replace_sections ([] @ START @ mid @ END @ []) = [] @ replace_sections []"
    by (rule replace_sections_text_section [OF not_occurs_START_Nil assms(2)])
  then have a: "bodySansDbChanges sec = []"
    by (simp add: bodySansDbChanges_def sec_def trimEnd_def)
  have "replace_sections ((?r @ NL @ NL) @ START @ mid @ END @ [])
          = (?r @ NL @ NL) @ replace_sections []"
    by (rule replace_sections_text_section [OF not_occurs_START_NL_NL [OF r] assms(2)])
  then have rs: "replace_sections (?r @ NL @ NL @ sec) = ?r @ NL @ NL"
    by (simp add: sec_def)
  have "bodySansDbChanges (?r @ NL @ NL @ sec) = trimEnd (replace_sections (?r @ NL @ NL @ sec))"
    by (rule bodySansDbChanges_def)
  also have "\<dots> = trimEnd (?r @ NL @ NL)"
    by (simp only: rs)
  also have "\<dots> = ?r"
    by (simp only: trimEnd_NL_NL tr)
  finally have b: "bodySansDbChanges (?r @ NL @ NL @ sec) = ?r" .
  show "newBody_of (newBody_of old (START @ mid @ END)) (START @ mid @ END)
           = newBody_of old (START @ mid @ END)"
    using newBody_of_again [OF sec a b] by (simp add: sec_def)
  have c0: "count_sections sec = 1"
    using count_sections_text_section [OF not_occurs_START_Nil assms(2), of "[]"]
    by (simp add: sec_def)
  have "count_sections ((?r @ NL @ NL) @ START @ mid @ END @ []) = Suc (count_sections [])"
    by (rule count_sections_text_section [OF not_occurs_START_NL_NL [OF r] assms(2)])
  then have c1: "count_sections (?r @ NL @ NL @ sec) = 1"
    by (simp add: sec_def)
  have "count_sections (newBody_of old sec) = 1"
    using c0 c1 sec by (simp add: newBody_of_cases)
  then show "count_sections (newBody_of old (START @ mid @ END)) = 1"
    by (simp add: sec_def)
qed

lemma count_sections_newBody_empty:
  assumes "\<not> occurs START (replace_sections old)"
  shows "count_sections (newBody_of old []) = 0"
proof -
  have "\<not> occurs START (bodySansDbChanges old)"
    using assms occurs_trimEnd unfolding bodySansDbChanges_def by blast
  then show ?thesis
    by (simp add: newBody_of_cases count_sections_no_START)
qed

lemma heading_no_lt: "(0x3C::jschar) \<notin> set heading"
  by (simp add: heading_def labelName_def lit_def)

lemma not_occurs_END_around:
  assumes "\<not> occurs END fm"
  shows "\<not> occurs END (NL @ heading @ NL @ NL @ fm @ NL @ NL)"
proof -
  have "\<not> occurs (0x3C # tl END) fm"
    unfolding END_Cons by (rule assms)
  then have "\<not> occurs (0x3C # tl END) (fm @ NL @ NL)"
    by (rule not_occurs_append_text) (use END_tl in \<open>simp_all add: NL_def\<close>)
  then have "\<not> occurs (0x3C # tl END) ((NL @ heading @ NL @ NL) @ fm @ NL @ NL)"
    by (rule not_occurs_text_append) (use heading_no_lt in \<open>simp add: NL_def\<close>)
  then show ?thesis unfolding END_Cons by simp
qed

lemma not_occurs_END_sentence:
  assumes "\<not> occurs END ls"
  shows "\<not> occurs END (lit ''This PR adds the following migration files:'' @ NL @ NL @ ls)"
proof -
  have "\<not> occurs (0x3C # tl END) ls"
    unfolding END_Cons by (rule assms)
  then have "\<not> occurs (0x3C # tl END)
               ((lit ''This PR adds the following migration files:'' @ NL @ NL) @ ls)"
    by (rule not_occurs_text_append) (simp add: NL_def lit_def)
  then show ?thesis unfolding END_Cons by simp
qed

lemma section_flat_eq:
  "section_flat ctx am =
     (if am = [] then []
      else section_doundo (lit ''This PR adds the following migration files:'' @ NL @ NL
                             @ lines_flat ctx am))"
proof (cases "am = []")
  case True
  then show ?thesis by (simp add: section_flat_def lines_flat_def)
next
  case False
  then show ?thesis
    using lines_flat_not_Nil [OF False, of ctx]
    by (simp add: section_flat_def section_doundo_def)
qed

subsection \<open>Running twice\<close>

lemma oldBody_of_event:
  "oldBody_of (event_of ctx w) = (case remote_body w of None \<Rightarrow> [] | Some b \<Rightarrow> b)"
  by (simp add: oldBody_of_def event_of_def)

lemma hasLabel_event: "hasLabel (event_of ctx w) = (labelName \<in> set (remote_labels w))"
proof -
  have "map label_name (map LabelObject ls) = ls" for ls
    by (induction ls) auto
  then show ?thesis by (simp add: hasLabel_def event_of_def)
qed

lemma fileUrl_event: "fileUrl (event_of ctx w) f = fileUrl ctx f"
  by (simp add: fileUrl_def event_of_def)

lemma fileLink_event: "fileLink (event_of ctx w) f = fileLink ctx f"
  by (simp add: fileLink_def fileUrl_event)

lemma lines_flat_event: "lines_flat (event_of ctx w) am = lines_flat ctx am"
  by (simp add: lines_flat_def fileLink_event)

lemma section_flat_event: "section_flat (event_of ctx w) am = section_flat ctx am"
  by (simp add: section_flat_def lines_flat_event)

lemma formatMigrations_event: "formatMigrations (event_of ctx w) am = formatMigrations ctx am"
proof -
  have "formatLoneMigration (event_of ctx w) entry = formatLoneMigration ctx entry" for entry
    by (simp add: formatLoneMigration_def fileLink_event fileUrl_event Let_def
          split: option.splits)
  moreover have "formatMultipleMigrations (event_of ctx w) am = formatMultipleMigrations ctx am"
    by (simp add: formatMultipleMigrations_def fileLink_event)
  ultimately show ?thesis
    by (simp add: formatMigrations_def Let_def)
qed

lemma update_body_fake:
  "update_body fake_github ctx nb w =
     (if oldBody_of ctx \<noteq> nb
      then (None, w\<lparr>remote_body := Some nb\<rparr>,
            [PullsUpdate (ctx_owner ctx) (ctx_repo ctx) (pr_number (ctx_pr ctx)) nb])
      else (None, w, []))"
  by (simp add: update_body_def fake_github_def)

lemma reconcile_labels_settled:
  "hasLabel ctx = (am \<noteq> []) \<Longrightarrow> reconcile_labels gh ctx am w = (None, w, [])"
  by (simp add: reconcile_labels_def)

lemma ensureLabelExists_fake:
  "\<exists>w' t. ensureLabelExists fake_github ctx w = (None, w', t)
          \<and> remote_body w' = remote_body w \<and> remote_labels w' = remote_labels w"
  by (simp add: ensureLabelExists_def fake_github_def Let_def)

lemma reconcile_labels_fake:
  assumes "hasLabel ctx = (labelName \<in> set (remote_labels w))"
  shows "\<exists>w' t. reconcile_labels fake_github ctx am w = (None, w', t)
          \<and> remote_body w' = remote_body w
          \<and> (labelName \<in> set (remote_labels w')) = (am \<noteq> [])"
proof (cases "hasLabel ctx = (am \<noteq> [])")
  case True
  with assms show ?thesis by (simp add: reconcile_labels_settled)
next
  case False
  show ?thesis
  proof (cases "am = []")
    case True
    with False assms have "labelName \<in> set (remote_labels w)" and "hasLabel ctx" by auto
    with True show ?thesis
      by (simp add: reconcile_labels_def fake_github_def Let_def)
  next
    case am: False
    with False assms have nl: "labelName \<notin> set (remote_labels w)" and nh: "\<not> hasLabel ctx"
      by auto
    obtain w1 t1 where e: "ensureLabelExists fake_github ctx w = (None, w1, t1)"
      and b: "remote_body w1 = remote_body w" and l: "remote_labels w1 = remote_labels w"
      using ensureLabelExists_fake [of ctx w] by blast
    show ?thesis
      using am nh e b l by (simp add: reconcile_labels_def fake_github_def Let_def)
  qed
qed

lemma first_run_state:
  assumes "update_and_label fake_github (event_of ctx w) am sec w = (r1, w1, t1)"
  shows "r1 = None"
    and "oldBody_of (event_of ctx w1) = newBody_of (oldBody_of (event_of ctx w)) sec"
    and "hasLabel (event_of ctx w1) = (am \<noteq> [])"
proof -
  let ?ctx = "event_of ctx w"
  let ?nb = "newBody_of (oldBody_of ?ctx) sec"
  define w0 where "w0 = (if oldBody_of ?ctx \<noteq> ?nb then w\<lparr>remote_body := Some ?nb\<rparr> else w)"
  define t0 where "t0 = (if oldBody_of ?ctx \<noteq> ?nb
     then [PullsUpdate (ctx_owner ?ctx) (ctx_repo ?ctx) (pr_number (ctx_pr ?ctx)) ?nb] else [])"
  have u: "update_body fake_github ?ctx ?nb w = (None, w0, t0)"
    by (simp add: update_body_fake w0_def t0_def)
  have body0: "(case remote_body w0 of None \<Rightarrow> [] | Some b \<Rightarrow> b) = ?nb"
    by (simp add: w0_def oldBody_of_event)
  have "hasLabel ?ctx = (labelName \<in> set (remote_labels w0))"
    by (simp add: hasLabel_event w0_def)
  then obtain w' t where rl: "reconcile_labels fake_github ?ctx am w0 = (None, w', t)"
    and b: "remote_body w' = remote_body w0"
    and l: "(labelName \<in> set (remote_labels w')) = (am \<noteq> [])"
    using reconcile_labels_fake [of ?ctx w0 am] by blast
  have "update_and_label fake_github ?ctx am sec w = (None, w', t0 @ t)"
    by (simp add: update_and_label_def u rl)
  with assms have eq: "r1 = None" "w1 = w'" by simp_all
  show "r1 = None" by (rule eq(1))
  show "oldBody_of (event_of ctx w1) = ?nb"
    using body0 b by (simp add: eq(2) oldBody_of_event)
  show "hasLabel (event_of ctx w1) = (am \<noteq> [])"
    using l by (simp add: eq(2) hasLabel_event)
qed

lemma second_run_state:
  assumes "oldBody_of ctx = nb" and "newBody_of nb sec = nb" and "hasLabel ctx = (am \<noteq> [])"
  shows "update_and_label gh ctx am sec w = (None, w, [])"
  using assms by (simp add: update_and_label_def update_body_def reconcile_labels_settled)

lemma update_and_label_twice:
  assumes "newBody_of (newBody_of (oldBody_of (event_of ctx w)) sec) sec
             = newBody_of (oldBody_of (event_of ctx w)) sec"
    and "w1 = fst (snd (update_and_label fake_github (event_of ctx w) am sec w))"
  shows "update_and_label fake_github (event_of ctx w1) am sec w1 = (None, w1, [])"
proof -
  obtain r1 t1 where f: "update_and_label fake_github (event_of ctx w) am sec w = (r1, w1, t1)"
    using assms(2) by (cases "update_and_label fake_github (event_of ctx w) am sec w") auto
  show ?thesis
    by (rule second_run_state [OF first_run_state(2) [OF f] assms(1) first_run_state(3) [OF f]])
qed

lemma newBody_idem_flat:
  assumes "\<not> occurs START (replace_sections old)" and "\<not> occurs END (lines_flat ctx am)"
  shows "newBody_of (newBody_of old (section_flat ctx am)) (section_flat ctx am)
           = newBody_of old (section_flat ctx am)"
proof (cases "am = []")
  case True
  then show ?thesis
    using newBody_idem_empty [OF assms(1)] by (simp add: section_flat_eq)
next
  case False
  have "\<not> occurs END (NL @ heading @ NL @ NL
          @ (lit ''This PR adds the following migration files:'' @ NL @ NL @ lines_flat ctx am)
          @ NL @ NL)"
    by (rule not_occurs_END_around [OF not_occurs_END_sentence [OF assms(2)]])
  from newBody_idem_section(1) [OF assms(1) this] False show ?thesis
    by (simp add: section_flat_eq section_doundo_def)
qed

lemma newBody_idem_doundo:
  assumes "\<not> occurs START (replace_sections old)" and "\<not> occurs END fm"
  shows "newBody_of (newBody_of old (section_doundo fm)) (section_doundo fm)
           = newBody_of old (section_doundo fm)"
  using newBody_idem_section(1) [OF assms(1) not_occurs_END_around [OF assms(2)]]
  by (simp add: section_doundo_def)

lemma second_run_flat:
  assumes "\<not> occurs START (replace_sections (oldBody_of (event_of ctx w)))"
    and "\<not> occurs END (lines_flat ctx (addedMigrations files))"
  shows "second_run run_flat ctx files w = (None, state_after run_flat ctx files w, [])"
proof -
  let ?am = "addedMigrations files"
  let ?sec = "section_flat ctx ?am"
  have idem: "newBody_of (newBody_of (oldBody_of (event_of ctx w)) ?sec) ?sec
               = newBody_of (oldBody_of (event_of ctx w)) ?sec"
    by (rule newBody_idem_flat [OF assms])
  have st: "state_after run_flat ctx files w
              = fst (snd (update_and_label fake_github (event_of ctx w) ?am ?sec w))"
    by (simp add: state_after_def run_flat_def section_flat_event Let_def)
  show ?thesis
    using update_and_label_twice [OF idem st]
    by (simp add: second_run_def run_flat_def section_flat_event Let_def)
qed

lemma second_run_doundo:
  assumes "\<not> occurs START (replace_sections (oldBody_of (event_of ctx w)))"
    and "case formatMigrations ctx (addedMigrations files) of
           Inl e \<Rightarrow> True | Inr fm \<Rightarrow> \<not> occurs END fm"
  shows "snd (second_run run_doundo ctx files w) = (state_after run_doundo ctx files w, [])"
proof (cases "formatMigrations ctx (addedMigrations files)")
  case (Inl e)
  then show ?thesis
    by (simp add: second_run_def state_after_def run_doundo_def formatMigrations_event Let_def)
next
  case (Inr fm)
  let ?am = "addedMigrations files"
  let ?sec = "section_doundo fm"
  from Inr assms(2) have "\<not> occurs END fm" by simp
  then have idem: "newBody_of (newBody_of (oldBody_of (event_of ctx w)) ?sec) ?sec
               = newBody_of (oldBody_of (event_of ctx w)) ?sec"
    by (rule newBody_idem_doundo [OF assms(1)])
  have st: "state_after run_doundo ctx files w
              = fst (snd (update_and_label fake_github (event_of ctx w) ?am ?sec w))"
    by (simp add: state_after_def run_doundo_def formatMigrations_event Inr Let_def)
  show ?thesis
    using update_and_label_twice [OF idem st]
    by (simp add: second_run_def run_doundo_def formatMigrations_event Inr Let_def)
qed

lemmas run_defs = second_run_def state_after_def run_flat_def run_doundo_def
  update_and_label_def update_body_def reconcile_labels_def ensureLabelExists_def
  fake_github_def event_of_def oldBody_of_def hasLabel_def newBody_of_def
  bodySansDbChanges_def section_flat_def section_doundo_def lines_flat_def
  addedMigrations_def Let_def

lemma added_lone_pair: "addedMigrations lone_pair = lone_pair"
  by (simp add: addedMigrations_def lone_pair_def migration_def targetPrefix_def lit_def)

lemma lone_pair_flat_no_END: "\<not> occurs END (lines_flat example_context lone_pair)"
  by (simp add: lines_flat_def lone_pair_def eval_defs)

lemma lone_pair_doundo_no_END:
  "case formatMigrations example_context lone_pair of
     Inl e \<Rightarrow> True | Inr fm \<Rightarrow> \<not> occurs END fm"
  by (simp add: formatMigrations_def formatLoneMigration_def added_line_count_def
      group_lone_pair Let_def eval_defs)

lemma first_run_example:
  "state_after run_flat example_context lone_pair example_remote
     = \<lparr>remote_body = Some (lit ''Intro'' @ NL @ NL @ section_flat example_context lone_pair),
        remote_labels = [lit ''Database changes''],
        repo_labels = [lit ''Database changes'']\<rparr>"
  by (simp add: run_defs example_remote_def lone_pair_def eval_defs)

lemma doundo_updates:
  "filter is_body_update (snd (snd (run_doundo gh c files v)))
     = (case formatMigrations c (addedMigrations files) of
          Inl e \<Rightarrow> []
        | Inr fm \<Rightarrow>
            if oldBody_of c \<noteq> newBody_of (oldBody_of c) (section_doundo fm)
            then [PullsUpdate (ctx_owner c) (ctx_repo c) (pr_number (ctx_pr c))
                    (newBody_of (oldBody_of c) (section_doundo fm))]
            else [])"
  using update_and_label_updates [of gh c "addedMigrations files" _ v]
  by (simp add: run_doundo_def Let_def split: sum.splits)

text \<open>
  Claim C2, as amended. Let the body, once the matches of the section expression are
  removed, hold no start marker. Then, against the remote state above, a second run on
  the same listing issues no call and leaves the state of the first run: for the
  flat-list script when the rendered list holds no end marker, for the do/undo-aware
  script when the rendered summary holds no end marker (or the rendering throws, which
  ends both runs before any call). In every run the only body update is the one issued
  when the computed body differs from the body of the event.
\<close>

theorem second_run_writes_nothing:
  assumes "\<not> occurs START (replace_sections (oldBody_of (event_of ctx w)))"
  shows "(\<not> occurs END (lines_flat ctx (addedMigrations files))
            \<longrightarrow> second_run run_flat ctx files w
                  = (None, state_after run_flat ctx files w, []))
       \<and> ((case formatMigrations ctx (addedMigrations files) of
             Inl e \<Rightarrow> True | Inr fm \<Rightarrow> \<not> occurs END fm)
            \<longrightarrow> snd (second_run run_doundo ctx files w)
                  = (state_after run_doundo ctx files w, []))
       \<and> filter is_body_update (snd (snd (run_flat gh c files v)))
           = (if oldBody_of c \<noteq> newBody_of (oldBody_of c) (section_flat c (addedMigrations files))
              then [PullsUpdate (ctx_owner c) (ctx_repo c) (pr_number (ctx_pr c))
                      (newBody_of (oldBody_of c) (section_flat c (addedMigrations files)))]
              else [])
       \<and> filter is_body_update (snd (snd (run_doundo gh c files v)))
           = (case formatMigrations c (addedMigrations files) of
                Inl e \<Rightarrow> []
              | Inr fm \<Rightarrow>
                  if oldBody_of c \<noteq> newBody_of (oldBody_of c) (section_doundo fm)
                  then [PullsUpdate (ctx_owner c) (ctx_repo c) (pr_number (ctx_pr c))
                          (newBody_of (oldBody_of c) (section_doundo fm))]
                  else [])"
  using second_run_flat [OF assms] second_run_doundo [OF assms]
    update_and_label_updates [of gh c "addedMigrations files"
      "section_flat c (addedMigrations files)" v]
    doundo_updates [of gh c files v]
  by (simp add: run_flat_def Let_def)

theorem second_run_writes_nothing_witness:
  "\<not> occurs START (replace_sections (oldBody_of (event_of example_context example_remote)))
   \<and> \<not> occurs END (lines_flat example_context (addedMigrations lone_pair))
   \<and> (case formatMigrations example_context (addedMigrations lone_pair) of
         Inl e \<Rightarrow> True | Inr fm \<Rightarrow> \<not> occurs END fm)
   \<and> state_after run_flat example_context lone_pair example_remote
       = \<lparr>remote_body = Some (lit ''Intro'' @ NL @ NL @ section_flat example_context lone_pair),
          remote_labels = [lit ''Database changes''],
          repo_labels = [lit ''Database changes'']\<rparr>
   \<and> second_run run_flat example_context lone_pair example_remote
       = (None, state_after run_flat example_context lone_pair example_remote, [])
   \<and> snd (second_run run_doundo example_context lone_pair example_remote)
       = (state_after run_doundo example_context lone_pair example_remote, [])"
proof -
  have a: "\<not> occurs START (replace_sections (oldBody_of (event_of example_context example_remote)))"
    by (simp add: oldBody_of_event example_remote_def eval_defs)
  have b: "\<not> occurs END (lines_flat example_context (addedMigrations lone_pair))"
    by (simp only: added_lone_pair lone_pair_flat_no_END not_False_eq_True)
  have c: "case formatMigrations example_context (addedMigrations lone_pair) of
         Inl e \<Rightarrow> True | Inr fm \<Rightarrow> \<not> occurs END fm"
    unfolding added_lone_pair by (rule lone_pair_doundo_no_END)
  note inst =
    second_run_writes_nothing [OF a, of lone_pair fake_github example_context example_remote]
  note flat = inst [THEN conjunct1, THEN mp, OF b]
  note doundo = inst [THEN conjunct2, THEN conjunct1, THEN mp, OF c]
  from a b c first_run_example flat doundo show ?thesis
    by (intro conjI)
qed

text \<open>
  Claim C2 as stated fails on a body with a start marker that no end marker follows.
  The first run of the flat-list script appends the section behind the body
  \<^verbatim>\<open>Notes <!-- DATABASE_CHANGES_START -->\<close>; for the second run the expression
  matches from that first marker to the end of the appended section, so the second run
  computes a new body and updates the pull request again.
\<close>

theorem second_run_stray_start_marker:
  "snd (snd (second_run run_flat example_context [migration ''20240101.do.add_col.sql'' None]
               stray_start_remote))
     = [PullsUpdate (lit ''acme'') (lit ''app'') 7
          (lit ''Notes'' @ NL @ NL
             @ section_flat example_context [migration ''20240101.do.add_col.sql'' None])]"
  by (simp add: run_defs stray_start_remote_def eval_defs)

subsection \<open>Sections are replaced, not accumulated\<close>

lemma replace_sections_assemble:
  assumes "\<not> occurs START (unrelated t0 secs)"
    and "\<forall>(content, t) \<in> set secs. \<not> occurs END content"
  shows "replace_sections (assemble t0 secs) = unrelated t0 secs"
  using assms
proof (induction secs arbitrary: t0)
  case Nil
  then show ?case by (simp add: replace_sections_no_START)
next
  case (Cons p rest)
  obtain content t where p: "p = (content, t)" by (cases p)
  from Cons.prems(1) have t0: "\<not> occurs START t0"
    using occurs_append_right [of START t0 "unrelated t rest"] by (auto simp: p)
  from Cons.prems(1) have tail: "\<not> occurs START (unrelated t rest)"
    using occurs_append_left [of START "unrelated t rest" t0] by (auto simp: p)
  from Cons.prems(2) have c: "\<not> occurs END content" and r: "\<forall>(content, t) \<in> set rest. \<not> occurs END content"
    by (auto simp: p)
  have "replace_sections (t0 @ START @ content @ END @ assemble t rest)
          = t0 @ replace_sections (assemble t rest)"
    by (rule replace_sections_text_section [OF t0 c])
  with Cons.IH [OF tail r] show ?case by (simp add: p)
qed

text \<open>The body after a run against the remote state is the new body the run computed.\<close>

lemma body_after_flat:
  "body_after run_flat ctx files w
     = newBody_of (oldBody_of (event_of ctx w)) (section_flat ctx (addedMigrations files))"
proof -
  let ?am = "addedMigrations files"
  obtain r1 w1 t1 where
    f: "update_and_label fake_github (event_of ctx w) ?am (section_flat ctx ?am) w = (r1, w1, t1)"
    by (cases "update_and_label fake_github (event_of ctx w) ?am (section_flat ctx ?am) w") auto
  have "state_after run_flat ctx files w = w1"
    by (simp add: state_after_def run_flat_def section_flat_event f Let_def)
  then show ?thesis
    using first_run_state(2) [OF f] by (simp add: body_after_def)
qed

lemma body_after_doundo:
  assumes "formatMigrations ctx (addedMigrations files) = Inr fm"
  shows "body_after run_doundo ctx files w
           = newBody_of (oldBody_of (event_of ctx w)) (section_doundo fm)"
proof -
  let ?am = "addedMigrations files"
  obtain r1 w1 t1 where
    f: "update_and_label fake_github (event_of ctx w) ?am (section_doundo fm) w = (r1, w1, t1)"
    by (cases "update_and_label fake_github (event_of ctx w) ?am (section_doundo fm) w") auto
  have "state_after run_doundo ctx files w = w1"
    by (simp add: state_after_def run_doundo_def formatMigrations_event assms f Let_def)
  then show ?thesis
    using first_run_state(2) [OF f] by (simp add: body_after_def)
qed

text \<open>
  Claim C4, as amended. Let the body of the pull request be unrelated text and sections,
  where the unrelated text joined together holds no start marker and no section content
  holds an end marker, and let the rendered summary hold no end marker. After a run of
  the flat-list script the body is the unrelated text in its order, without the white
  space at its end, followed after a blank line by the new section when migrations are
  detected; the expression matches in it once when migrations are detected and not at
  all otherwise. After a run of the do/undo-aware script that renders a summary, the
  body begins with the unrelated text in its order, without the white space at its end,
  and the expression matches in it at most once; when the summary is not empty, the body
  is that text followed after a blank line by the new section, and the expression
  matches exactly once.
\<close>

theorem sections_replaced_not_accumulated:
  assumes "oldBody_of (event_of ctx w) = assemble t0 secs"
    and "\<not> occurs START (unrelated t0 secs)"
    and "\<forall>(content, t) \<in> set secs. \<not> occurs END content"
  shows "(\<not> occurs END (lines_flat ctx (addedMigrations files)) \<longrightarrow>
            body_after run_flat ctx files w
              = (if addedMigrations files = [] then trimEnd (unrelated t0 secs)
                 else if trimEnd (unrelated t0 secs) = []
                 then section_flat ctx (addedMigrations files)
                 else trimEnd (unrelated t0 secs) @ NL @ NL
                        @ section_flat ctx (addedMigrations files))
          \<and> count_sections (body_after run_flat ctx files w)
              = (if addedMigrations files = [] then 0 else 1))
       \<and> (formatMigrations ctx (addedMigrations files) = Inr fm \<and> \<not> occurs END fm \<longrightarrow>
            prefix (trimEnd (unrelated t0 secs)) (body_after run_doundo ctx files w)
          \<and> count_sections (body_after run_doundo ctx files w) \<le> 1
          \<and> (fm \<noteq> [] \<longrightarrow>
                body_after run_doundo ctx files w
                  = (if trimEnd (unrelated t0 secs) = [] then section_doundo fm
                     else trimEnd (unrelated t0 secs) @ NL @ NL @ section_doundo fm)
              \<and> count_sections (body_after run_doundo ctx files w) = 1))"
proof -
  let ?old = "assemble t0 secs"
  let ?am = "addedMigrations files"
  let ?u = "trimEnd (unrelated t0 secs)"
  have rs: "replace_sections ?old = unrelated t0 secs"
    by (rule replace_sections_assemble [OF assms(2,3)])
  then have clean: "\<not> occurs START (replace_sections ?old)"
    using assms(2) by simp
  have bs: "bodySansDbChanges ?old = ?u"
    by (simp add: bodySansDbChanges_def rs)
  have dn: "section_doundo x \<noteq> []" for x
    using START_not_Nil by (simp add: section_doundo_def)
  have nb_doundo: "newBody_of ?old (section_doundo x)
              = (if ?u = [] then section_doundo x else ?u @ NL @ NL @ section_doundo x)" for x
    using dn [of x] by (simp add: newBody_of_cases bs)
  have cnt_doundo: "count_sections (newBody_of ?old (section_doundo x)) = 1"
    if "\<not> occurs END x" for x
    using newBody_idem_section(2) [OF clean not_occurs_END_around [OF that]]
    by (simp add: section_doundo_def)
  have flat: "newBody_of ?old (section_flat ctx ?am)
              = (if ?am = [] then ?u
                 else if ?u = [] then section_flat ctx ?am
                 else ?u @ NL @ NL @ section_flat ctx ?am)"
  proof (cases "?am = []")
    case True
    then show ?thesis by (simp add: section_flat_eq newBody_of_cases bs)
  next
    case False
    then show ?thesis using nb_doundo by (simp add: section_flat_eq)
  qed
  have cnt_flat: "count_sections (newBody_of ?old (section_flat ctx ?am))
              = (if ?am = [] then 0 else 1)"
    if "\<not> occurs END (lines_flat ctx ?am)"
  proof (cases "?am = []")
    case True
    then show ?thesis
      using count_sections_newBody_empty [OF clean] by (simp add: section_flat_eq)
  next
    case False
    then show ?thesis
      using cnt_doundo [OF not_occurs_END_sentence [OF that]] by (simp add: section_flat_eq)
  qed
  have bf: "body_after run_flat ctx files w = newBody_of ?old (section_flat ctx ?am)"
    by (simp add: body_after_flat assms(1))
  have part_flat: "body_after run_flat ctx files w
              = (if ?am = [] then ?u
                 else if ?u = [] then section_flat ctx ?am
                 else ?u @ NL @ NL @ section_flat ctx ?am)
          \<and> count_sections (body_after run_flat ctx files w) = (if ?am = [] then 0 else 1)"
    if "\<not> occurs END (lines_flat ctx ?am)"
    unfolding bf using flat cnt_flat [OF that] by (rule conjI)
  have part_doundo: "prefix ?u (body_after run_doundo ctx files w)
          \<and> count_sections (body_after run_doundo ctx files w) \<le> 1
          \<and> (fm \<noteq> [] \<longrightarrow>
                body_after run_doundo ctx files w
                  = (if ?u = [] then section_doundo fm else ?u @ NL @ NL @ section_doundo fm)
              \<and> count_sections (body_after run_doundo ctx files w) = 1)"
    if r: "formatMigrations ctx ?am = Inr fm" and e: "\<not> occurs END fm"
  proof -
    have bd: "body_after run_doundo ctx files w = newBody_of ?old (section_doundo fm)"
      by (simp add: body_after_doundo [OF r] assms(1))
    have "prefix ?u (newBody_of ?old (section_doundo fm))"
      by (simp add: nb_doundo)
    moreover have "count_sections (newBody_of ?old (section_doundo fm)) = 1"
      by (rule cnt_doundo [OF e])
    ultimately show ?thesis
      unfolding bd using nb_doundo [of fm] by simp
  qed
  show ?thesis
    using part_flat part_doundo by blast
qed

lemma example_hygiene:
  "\<not> occurs START (unrelated (lit ''Intro'' @ NL @ NL) example_sections)"
  "\<forall>(content, t) \<in> set example_sections. \<not> occurs END content"
  by (simp_all add: example_sections_def eval_defs)

lemma footer_remote_body:
  "oldBody_of (event_of example_context footer_remote)
     = assemble (lit ''Intro'' @ NL @ NL) example_sections"
  by (simp add: oldBody_of_event footer_remote_def)

lemma lone_pair_text_no_END: "\<not> occurs END lone_pair_text"
  by (simp add: lone_pair_text_def eval_defs)

theorem sections_replaced_not_accumulated_witness:
  "oldBody_of (event_of example_context footer_remote)
     = assemble (lit ''Intro'' @ NL @ NL) example_sections
   \<and> \<not> occurs START (unrelated (lit ''Intro'' @ NL @ NL) example_sections)
   \<and> example_sections = [(NL @ lit ''old summary'' @ NL, NL @ lit ''Footer'' @ NL)]
   \<and> \<not> occurs END (NL @ lit ''old summary'' @ NL)
   \<and> \<not> occurs END (lines_flat example_context (addedMigrations lone_pair))
   \<and> formatMigrations example_context (addedMigrations lone_pair) = Inr lone_pair_text
   \<and> \<not> occurs END lone_pair_text
   \<and> lone_pair_text \<noteq> []
   \<and> trimEnd (unrelated (lit ''Intro'' @ NL @ NL) example_sections)
       = lit ''Intro'' @ NL @ NL @ NL @ lit ''Footer''
   \<and> body_after run_flat example_context lone_pair footer_remote
       = trimEnd (unrelated (lit ''Intro'' @ NL @ NL) example_sections) @ NL @ NL
           @ section_flat example_context (addedMigrations lone_pair)
   \<and> count_sections (body_after run_flat example_context lone_pair footer_remote) = 1
   \<and> body_after run_doundo example_context lone_pair footer_remote
       = trimEnd (unrelated (lit ''Intro'' @ NL @ NL) example_sections) @ NL @ NL
           @ section_doundo lone_pair_text
   \<and> count_sections (body_after run_doundo example_context lone_pair footer_remote) = 1"
proof -
  have b: "\<not> occurs END (lines_flat example_context (addedMigrations lone_pair))"
    by (simp only: added_lone_pair lone_pair_flat_no_END not_False_eq_True)
  have r: "formatMigrations example_context (addedMigrations lone_pair) = Inr lone_pair_text"
    by (simp only: added_lone_pair format_lone_pair)
  have n: "lone_pair_text \<noteq> []"
    by (simp add: lone_pair_text_def lit_def)
  have ne: "addedMigrations lone_pair \<noteq> []"
    by (simp add: added_lone_pair) (simp add: lone_pair_def)
  have t: "trimEnd (unrelated (lit ''Intro'' @ NL @ NL) example_sections)
             = lit ''Intro'' @ NL @ NL @ NL @ lit ''Footer''"
    by (simp add: example_sections_def eval_defs)
  have tn: "trimEnd (unrelated (lit ''Intro'' @ NL @ NL) example_sections) \<noteq> []"
    unfolding t by (simp add: lit_def)
  note inst = sections_replaced_not_accumulated [OF footer_remote_body example_hygiene,
      of lone_pair lone_pair_text]
  note flat = inst [THEN conjunct1, THEN mp, OF b]
  note doundo = inst [THEN conjunct2, THEN mp, OF conjI [OF r lone_pair_text_no_END]]
  note lone = doundo [THEN conjunct2, THEN conjunct2, THEN mp, OF n]
  have f1: "body_after run_flat example_context lone_pair footer_remote
       = trimEnd (unrelated (lit ''Intro'' @ NL @ NL) example_sections) @ NL @ NL
           @ section_flat example_context (addedMigrations lone_pair)"
    using flat [THEN conjunct1] ne tn by simp
  have f2: "count_sections (body_after run_flat example_context lone_pair footer_remote) = 1"
    using flat [THEN conjunct2] ne by simp
  have d1: "body_after run_doundo example_context lone_pair footer_remote
       = trimEnd (unrelated (lit ''Intro'' @ NL @ NL) example_sections) @ NL @ NL
           @ section_doundo lone_pair_text"
    using lone [THEN conjunct1] tn by simp
  have d2: "count_sections (body_after run_doundo example_context lone_pair footer_remote) = 1"
    using lone [THEN conjunct2] by simp
  have h: "\<not> occurs END (NL @ lit ''old summary'' @ NL)"
    by (simp add: eval_defs)
  from footer_remote_body example_hygiene(1) example_sections_def h b r lone_pair_text_no_END n
    t f1 f2 d1 d2
  show ?thesis
    by (intro conjI)
qed

text \<open>
  Claim C4 as stated fails where the unrelated text ends with white space: from the body
  \<^verbatim>\<open>Intro\<close>, blank line, section, \<^verbatim>\<open>Footer\<close> between two line breaks, and no
  detected migration, a run of the flat-list script leaves a body that ends with
  \<^verbatim>\<open>Footer\<close>; the text behind the section is not in it verbatim.
\<close>

theorem trailing_whitespace_not_preserved:
  "oldBody_of (event_of example_context footer_remote)
     = lit ''Intro'' @ NL @ NL @ START @ NL @ lit ''old summary'' @ NL @ END
         @ NL @ lit ''Footer'' @ NL
   \<and> body_after run_flat example_context [] footer_remote
       = lit ''Intro'' @ NL @ NL @ NL @ lit ''Footer''
   \<and> \<not> occurs (NL @ lit ''Footer'' @ NL) (body_after run_flat example_context [] footer_remote)"
proof -
  have old: "oldBody_of (event_of example_context footer_remote)
     = lit ''Intro'' @ NL @ NL @ START @ NL @ lit ''old summary'' @ NL @ END
         @ NL @ lit ''Footer'' @ NL"
    by (simp add: footer_remote_body example_sections_def)
  have nb: "body_after run_flat example_context [] footer_remote
       = lit ''Intro'' @ NL @ NL @ NL @ lit ''Footer''"
    unfolding body_after_flat old
    by (simp add: newBody_of_def bodySansDbChanges_def section_flat_def
        lines_flat_def addedMigrations_def eval_defs)
  have "\<not> occurs (NL @ lit ''Footer'' @ NL) (lit ''Intro'' @ NL @ NL @ NL @ lit ''Footer'')"
    by (simp add: eval_defs)
  with old nb show ?thesis by simp
qed

end
